theory Spec2Isabelle
  imports Complex_Main "HOL-Library.Word"
begin

unbundle bit_operations_syntax

section \<open>Driver of the neural-network accelerator (nn\_driver.h, nn\_driver.c)\<close>

subsection \<open>Machine types and constants of nn\_driver.h\<close>

type_synonym u8 = "8 word"
type_synonym u16 = "16 word"
type_synonym u32 = "32 word"

text \<open>An \<^verbatim>\<open>s16\<close> is a 16-bit word read in two's complement (\<^const>\<open>sint\<close>).\<close>

type_synonym s16 = "16 word"

definition NN_BASEADDR :: u32 where "NN_BASEADDR = 0x43C00000"

definition NN_REG_CTRL :: u32 where "NN_REG_CTRL = 0x00"
definition NN_REG_STATUS :: u32 where "NN_REG_STATUS = 0x04"
definition NN_REG_NUM_IN :: u32 where "NN_REG_NUM_IN = 0x08"
definition NN_REG_NUM_H1 :: u32 where "NN_REG_NUM_H1 = 0x0C"
definition NN_REG_NUM_H2 :: u32 where "NN_REG_NUM_H2 = 0x10"
definition NN_REG_NUM_OUT :: u32 where "NN_REG_NUM_OUT = 0x14"

definition NN_CTRL_ENABLE :: u32 where "NN_CTRL_ENABLE = push_bit 0 1"
definition NN_CTRL_START :: u32 where "NN_CTRL_START = push_bit 1 1"
definition NN_CTRL_SOFT_RESET :: u32 where "NN_CTRL_SOFT_RESET = push_bit 2 1"

definition NN_STAT_BUSY :: u32 where "NN_STAT_BUSY = push_bit 0 1"
definition NN_STAT_DONE :: u32 where "NN_STAT_DONE = push_bit 1 1"

definition NN_DEFAULT_NUM_IN :: u16 where "NN_DEFAULT_NUM_IN = 784"
definition NN_DEFAULT_NUM_H1 :: u16 where "NN_DEFAULT_NUM_H1 = 16"
definition NN_DEFAULT_NUM_H2 :: u16 where "NN_DEFAULT_NUM_H2 = 16"
definition NN_DEFAULT_NUM_OUT :: u16 where "NN_DEFAULT_NUM_OUT = 10"

definition NN_FRAC_BITS :: nat where "NN_FRAC_BITS = 11"
definition NN_SCALE :: int where "NN_SCALE = push_bit NN_FRAC_BITS 1"

record NN_Config =
  base_addr :: u32
  num_inputs :: u16
  num_hidden1 :: u16
  num_hidden2 :: u16
  num_outputs :: u16
  initialized :: u8

subsection \<open>The environment: register bus, sleeping, and the driver's static state\<close>

text \<open>
  The driver talks to the device through \<^verbatim>\<open>Xil_In32\<close>, \<^verbatim>\<open>Xil_Out32\<close> and
  \<^verbatim>\<open>usleep\<close>, which belong to the platform. Every such call is an observable event;
  the model records them in order. What a register read returns is decided by the
  device: a function of everything that happened on the bus so far and of the address
  read. Any deterministic device is such a function.
\<close>

datatype io_event = Write u32 u32 | Read u32 u32 | Sleep u32

type_synonym device = "io_event list \<Rightarrow> u32 \<Rightarrow> u32"

text \<open>The state the driver's functions act on: the static \<^verbatim>\<open>g_config\<close> and the bus history.\<close>

record world =
  g_config :: NN_Config
  io_log :: "io_event list"

definition Xil_Out32 :: "u32 \<Rightarrow> u32 \<Rightarrow> world \<Rightarrow> world" where
  "Xil_Out32 addr val w = w\<lparr>io_log := io_log w @ [Write addr val]\<rparr>"

definition Xil_In32 :: "device \<Rightarrow> u32 \<Rightarrow> world \<Rightarrow> u32 \<times> world" where
  "Xil_In32 dev addr w =
     (let v = dev (io_log w) addr in (v, w\<lparr>io_log := io_log w @ [Read addr v]\<rparr>))"

definition usleep :: "u32 \<Rightarrow> world \<Rightarrow> world" where
  "usleep us w = w\<lparr>io_log := io_log w @ [Sleep us]\<rparr>"

definition NN_WRITE :: "u32 \<Rightarrow> u32 \<Rightarrow> world \<Rightarrow> world" where
  "NN_WRITE offset val w = Xil_Out32 (NN_BASEADDR + offset) val w"

definition NN_READ :: "device \<Rightarrow> u32 \<Rightarrow> world \<Rightarrow> u32 \<times> world" where
  "NN_READ dev offset w = Xil_In32 dev (NN_BASEADDR + offset) w"

text \<open>The initial value of the static \<^verbatim>\<open>g_config\<close>.\<close>

definition g_config_init :: NN_Config where
  "g_config_init =
     \<lparr>base_addr = NN_BASEADDR,
      num_inputs = NN_DEFAULT_NUM_IN,
      num_hidden1 = NN_DEFAULT_NUM_H1,
      num_hidden2 = NN_DEFAULT_NUM_H2,
      num_outputs = NN_DEFAULT_NUM_OUT,
      initialized = 0\<rparr>"

definition world_init :: world where
  "world_init = \<lparr>g_config = g_config_init, io_log = []\<rparr>"

subsection \<open>Reset, configuration and initialisation\<close>

definition NN_Reset :: "world \<Rightarrow> world" where
  "NN_Reset w =
     (let w1 = NN_WRITE NN_REG_CTRL NN_CTRL_SOFT_RESET w;
          w2 = usleep 10 w1;
          w3 = NN_WRITE NN_REG_CTRL 0 w2
      in usleep 10 w3)"

text \<open>The \<^verbatim>\<open>u16\<close> arguments are widened to the 32-bit value written (\<^const>\<open>ucast\<close>).\<close>

definition NN_Configure :: "u16 \<Rightarrow> u16 \<Rightarrow> u16 \<Rightarrow> u16 \<Rightarrow> world \<Rightarrow> world" where
  "NN_Configure num_in num_h1 num_h2 num_out w =
     (let w1 = NN_WRITE NN_REG_NUM_IN (ucast num_in) w;
          w2 = NN_WRITE NN_REG_NUM_H1 (ucast num_h1) w1;
          w3 = NN_WRITE NN_REG_NUM_H2 (ucast num_h2) w2;
          w4 = NN_WRITE NN_REG_NUM_OUT (ucast num_out) w3
      in w4\<lparr>g_config := (g_config w4)
            \<lparr>num_inputs := num_in,
             num_hidden1 := num_h1,
             num_hidden2 := num_h2,
             num_outputs := num_out\<rparr>\<rparr>)"

text \<open>
  The argument of \<^verbatim>\<open>NN_Init\<close> is a pointer that may be \<^verbatim>\<open>NULL\<close>: an option. The
  \<^verbatim>\<open>memcpy\<close> overwrites the whole of \<^verbatim>\<open>g_config\<close>. The result is the returned
  \<^verbatim>\<open>int\<close> and the new state.
\<close>

definition NN_Init :: "NN_Config option \<Rightarrow> world \<Rightarrow> int \<times> world" where
  "NN_Init config w =
     (let w1 = (case config of None \<Rightarrow> w | Some c \<Rightarrow> w\<lparr>g_config := c\<rparr>);
          w2 = NN_Reset w1;
          w3 = NN_Configure (num_inputs (g_config w2)) (num_hidden1 (g_config w2))
                 (num_hidden2 (g_config w2)) (num_outputs (g_config w2)) w2;
          w4 = w3\<lparr>g_config := (g_config w3)\<lparr>initialized := 1\<rparr>\<rparr>
      in (0, w4))"

subsection \<open>Status, start and waiting for completion\<close>

definition NN_IsDone :: "device \<Rightarrow> world \<Rightarrow> int \<times> world" where
  "NN_IsDone dev w =
     (case NN_READ dev NN_REG_STATUS w of
        (status, w1) \<Rightarrow> (if status AND NN_STAT_DONE \<noteq> 0 then 1 else 0, w1))"

definition NN_Start :: "device \<Rightarrow> world \<Rightarrow> world" where
  "NN_Start dev w =
     (case NN_READ dev NN_REG_CTRL w of
        (ctrl, w1) \<Rightarrow> NN_WRITE NN_REG_CTRL (ctrl OR (NN_CTRL_ENABLE OR NN_CTRL_START)) w1)"

text \<open>
  The polling loop of \<^verbatim>\<open>NN_WaitDone\<close>, with the local \<^verbatim>\<open>elapsed\<close> (a \<^verbatim>\<open>u32\<close>, so its
  addition wraps) as an argument. The loop need not end: not returning is \<^const>\<open>None\<close>.
\<close>

partial_function (option) NN_WaitDone_loop ::
    "device \<Rightarrow> u32 \<Rightarrow> u32 \<Rightarrow> world \<Rightarrow> (int \<times> world) option" where
  "NN_WaitDone_loop dev timeout_us elapsed w =
     (case NN_IsDone dev w of
        (d, w1) \<Rightarrow>
          if d = 0 then
            (if 0 < timeout_us \<and> timeout_us \<le> elapsed then Some (- 1, w1)
             else NN_WaitDone_loop dev timeout_us (elapsed + 100) (usleep 100 w1))
          else Some (0, w1))"

declare NN_WaitDone_loop.simps [code]

definition NN_WaitDone :: "device \<Rightarrow> u32 \<Rightarrow> world \<Rightarrow> (int \<times> world) option" where
  "NN_WaitDone dev timeout_us w = NN_WaitDone_loop dev timeout_us 0 w"

text \<open>
  \<^verbatim>\<open>NN_RunInference\<close> does not use its four arguments; they are kept as the source has
  them.
\<close>

definition NN_RunInference ::
    "device \<Rightarrow> s16 list \<Rightarrow> u16 \<Rightarrow> s16 list \<Rightarrow> u16 \<Rightarrow> world \<Rightarrow> (int \<times> world) option" where
  "NN_RunInference dev inputs num_in outputs num_out w =
     (let w1 = (if initialized (g_config w) = 0 then snd (NN_Init None w) else w);
          w2 = NN_Start dev w1
      in case NN_WaitDone dev 10000000 w2 of
           None \<Rightarrow> None
         | Some (r, w3) \<Rightarrow> if r < 0 then Some (- 1, w3) else Some (0, w3))"

subsection \<open>Interpreting the output vector\<close>

text \<open>
  The array behind the pointer \<^verbatim>\<open>outputs\<close> is a list. A read at an index the array
  does not have is undefined behaviour in C; the model makes it the result \<^const>\<open>None\<close>.
  The comparison \<^verbatim>\<open>outputs[i] > max_val\<close> is signed. The loop counter is a \<^verbatim>\<open>u16\<close>.
\<close>

function NN_Classify_loop :: "s16 list \<Rightarrow> u16 \<Rightarrow> u16 \<Rightarrow> s16 \<Rightarrow> int \<Rightarrow> int option" where
  "NN_Classify_loop outputs num_out i max_val max_idx =
     (if i < num_out then
        (if unat i < length outputs then
           (if sint max_val < sint (outputs ! unat i)
            then NN_Classify_loop outputs num_out (i + 1) (outputs ! unat i) (uint i)
            else NN_Classify_loop outputs num_out (i + 1) max_val max_idx)
         else None)
      else Some max_idx)"
  by pat_completeness auto
termination
proof (relation "measure (\<lambda>(outputs, num_out, i, max_val, max_idx). unat num_out - unat i)")
  have step: "unat num_out - unat (i + 1) < unat num_out - unat i"
    if "i < num_out" for i num_out :: u16
  proof -
    from that have lt: "unat i < unat num_out" by (simp add: word_less_nat_alt)
    moreover have "unat num_out < 2 ^ 16" using unsigned_less [of num_out] by simp
    ultimately have "unat i + 1 < 2 ^ 16" by simp
    then have "unat (i + 1) = unat i + 1" by (simp add: unat_word_ariths)
    with lt show ?thesis by simp
  qed
  show "wf (measure (\<lambda>(outputs, num_out, i, max_val, max_idx). unat num_out - unat i))"
    by simp
  show "((outputs, num_out, i + 1, outputs ! unat i, uint i), outputs, num_out, i, max_val, max_idx)
          \<in> measure (\<lambda>(outputs, num_out, i, max_val, max_idx). unat num_out - unat i)"
    if "i < num_out" for outputs :: "s16 list" and num_out i max_val :: u16 and max_idx :: int
    using step [OF that] by simp
  show "((outputs, num_out, i + 1, max_val, max_idx), outputs, num_out, i, max_val, max_idx)
          \<in> measure (\<lambda>(outputs, num_out, i, max_val, max_idx). unat num_out - unat i)"
    if "i < num_out" for outputs :: "s16 list" and num_out i max_val :: u16 and max_idx :: int
    using step [OF that] by simp
qed

definition NN_Classify :: "s16 list \<Rightarrow> u16 \<Rightarrow> int option" where
  "NN_Classify outputs num_out =
     (case outputs of
        [] \<Rightarrow> None
      | x # _ \<Rightarrow> NN_Classify_loop outputs num_out 1 x 0)"

subsection \<open>Fixed-point conversion macros\<close>

text \<open>
  The macros \<^verbatim>\<open>FLOAT_TO_FIXED\<close> and \<^verbatim>\<open>FIXED_TO_FLOAT\<close> compute with C floating-point
  numbers. A finite floating-point number is a rational; an arithmetic operation or a
  conversion to floating point yields the rounding \<open>rnd\<close> of its exact result, where
  \<open>rnd\<close>, the rounding of the floating-point format, is a parameter of the model. The
  cast to \<^verbatim>\<open>s16\<close> drops the fraction (towards zero) and is undefined behaviour in C
  when the integral part is outside the range of \<^verbatim>\<open>s16\<close>: the result \<^const>\<open>None\<close>.
\<close>

type_synonym rounding = "rat \<Rightarrow> rat"

definition trunc_toward_zero :: "rat \<Rightarrow> int" where
  "trunc_toward_zero y = (if 0 \<le> y then \<lfloor>y\<rfloor> else \<lceil>y\<rceil>)"

definition s16_of_float :: "rat \<Rightarrow> s16 option" where
  "s16_of_float y =
     (let v = trunc_toward_zero y
      in if - 32768 \<le> v \<and> v \<le> 32767 then Some (word_of_int v) else None)"

definition FLOAT_TO_FIXED :: "rounding \<Rightarrow> rat \<Rightarrow> s16 option" where
  "FLOAT_TO_FIXED rnd x = s16_of_float (rnd (x * rnd (of_int NN_SCALE)))"

definition FIXED_TO_FLOAT :: "rounding \<Rightarrow> s16 \<Rightarrow> rat" where
  "FIXED_TO_FLOAT rnd x = rnd (rnd (of_int (sint x)) / rnd (of_int NN_SCALE))"

subsection \<open>Confidence of a classification\<close>

text \<open>
  \<^verbatim>\<open>NN_GetConfidence\<close>: the selected sample as a float, the running sum of all samples
  as floats (the local \<^verbatim>\<open>sum\<close>, here \<open>fsum\<close>, starting from 0 and rounded after every
  addition), and their rounded quotient when the sum is positive. The index
  \<^verbatim>\<open>class_idx\<close> is an \<^verbatim>\<open>int\<close>; a read outside the array is \<^const>\<open>None\<close>.
\<close>

function NN_GetConfidence_loop :: "rounding \<Rightarrow> s16 list \<Rightarrow> u16 \<Rightarrow> u16 \<Rightarrow> rat \<Rightarrow> rat option" where
  "NN_GetConfidence_loop rnd outputs num_out i fsum =
     (if i < num_out then
        (if unat i < length outputs then
           NN_GetConfidence_loop rnd outputs num_out (i + 1)
             (rnd (fsum + FIXED_TO_FLOAT rnd (outputs ! unat i)))
         else None)
      else Some fsum)"
  by pat_completeness auto
termination
proof (relation "measure (\<lambda>(rnd, outputs, num_out, i, fsum). unat num_out - unat i)")
  show "wf (measure (\<lambda>(rnd, outputs, num_out, i, fsum). unat num_out - unat i))"
    by simp
  show "((rnd, outputs, num_out, i + 1, rnd (fsum + FIXED_TO_FLOAT rnd (outputs ! unat i))),
           rnd, outputs, num_out, i, fsum)
          \<in> measure (\<lambda>(rnd, outputs, num_out, i, fsum). unat num_out - unat i)"
    if "i < num_out"
    for rnd :: rounding and outputs :: "s16 list" and num_out i :: u16 and fsum :: rat
  proof -
    from that have lt: "unat i < unat num_out" by (simp add: word_less_nat_alt)
    moreover have "unat num_out < 2 ^ 16" using unsigned_less [of num_out] by simp
    ultimately have "unat i + 1 < 2 ^ 16" by simp
    then have "unat (i + 1) = unat i + 1" by (simp add: unat_word_ariths)
    with lt show ?thesis by simp
  qed
qed

definition NN_GetConfidence :: "rounding \<Rightarrow> s16 list \<Rightarrow> u16 \<Rightarrow> int \<Rightarrow> rat option" where
  "NN_GetConfidence rnd outputs num_out class_idx =
     (if 0 \<le> class_idx \<and> nat class_idx < length outputs then
        (let value = FIXED_TO_FLOAT rnd (outputs ! nat class_idx)
         in case NN_GetConfidence_loop rnd outputs num_out 0 0 of
              None \<Rightarrow> None
            | Some fsum \<Rightarrow> if 0 < fsum then Some (rnd (value / fsum)) else Some value)
      else None)"

section \<open>Vocabulary of the specification\<close>

text \<open>The bus events of a reset and of pushing a topology to the four size registers.\<close>

definition reset_events :: "io_event list" where
  "reset_events =
     [Write (NN_BASEADDR + NN_REG_CTRL) NN_CTRL_SOFT_RESET, Sleep 10,
      Write (NN_BASEADDR + NN_REG_CTRL) 0, Sleep 10]"

definition configure_events :: "u16 \<Rightarrow> u16 \<Rightarrow> u16 \<Rightarrow> u16 \<Rightarrow> io_event list" where
  "configure_events num_in num_h1 num_h2 num_out =
     [Write (NN_BASEADDR + NN_REG_NUM_IN) (ucast num_in),
      Write (NN_BASEADDR + NN_REG_NUM_H1) (ucast num_h1),
      Write (NN_BASEADDR + NN_REG_NUM_H2) (ucast num_h2),
      Write (NN_BASEADDR + NN_REG_NUM_OUT) (ucast num_out)]"

definition topology :: "NN_Config \<Rightarrow> u16 \<times> u16 \<times> u16 \<times> u16" where
  "topology c = (num_inputs c, num_hidden1 c, num_hidden2 c, num_outputs c)"

text \<open>The configuration an initialisation works with: the one supplied, else the one held.\<close>

definition held :: "NN_Config option \<Rightarrow> world \<Rightarrow> NN_Config" where
  "held config w = (case config of None \<Rightarrow> g_config w | Some c \<Rightarrow> c)"

text \<open>
  Index \<open>k\<close> is the first maximum of the first \<open>m\<close> samples: no sample among them is
  greater (signed), and every sample before \<open>k\<close> is strictly smaller.
\<close>

definition first_max :: "s16 list \<Rightarrow> nat \<Rightarrow> nat \<Rightarrow> bool" where
  "first_max outputs m k \<longleftrightarrow>
     k < m \<and> (\<forall>j<m. sint (outputs ! j) \<le> sint (outputs ! k)) \<and>
     (\<forall>j<k. sint (outputs ! j) < sint (outputs ! k))"

text \<open>
  The polling loop seen from outside. \<open>poll_cycles dev k w\<close> is the state after \<open>k\<close>
  cycles that did not see DONE (each one status read and one sleep of 100 microseconds);
  \<open>done_at dev w k\<close> says that the status read of cycle \<open>k\<close> (counted from 0) sees DONE;
  \<open>elapsed_after k\<close> is the value of the 32-bit local \<^verbatim>\<open>elapsed\<close> in cycle \<open>k\<close>, and
  \<open>expired\<close> is the loop's deadline test.
\<close>

fun poll_cycles :: "device \<Rightarrow> nat \<Rightarrow> world \<Rightarrow> world" where
  "poll_cycles dev 0 w = w"
| "poll_cycles dev (Suc k) w = poll_cycles dev k (usleep 100 (snd (NN_IsDone dev w)))"

definition done_at :: "device \<Rightarrow> world \<Rightarrow> nat \<Rightarrow> bool" where
  "done_at dev w k \<longleftrightarrow> fst (NN_IsDone dev (poll_cycles dev k w)) \<noteq> 0"

definition elapsed_after :: "nat \<Rightarrow> u32" where
  "elapsed_after k = of_nat (100 * k)"

definition expired :: "u32 \<Rightarrow> u32 \<Rightarrow> bool" where
  "expired timeout_us elapsed \<longleftrightarrow> 0 < timeout_us \<and> timeout_us \<le> elapsed"

text \<open>The first cycle whose accumulated sleeping time has reached the timeout.\<close>

definition deadline_cycle :: "u32 \<Rightarrow> nat" where
  "deadline_cycle t = (unat t + 99) div 100"

text \<open>The time slept in a bus history, in microseconds (unbounded).\<close>

fun slept :: "io_event list \<Rightarrow> nat" where
  "slept [] = 0"
| "slept (Sleep us # es) = unat us + slept es"
| "slept (e # es) = slept es"

text \<open>
  Two devices to run the driver against: one that never reports DONE, and one that
  reports DONE in every status read once the bus history has \<open>n\<close> events.
\<close>

definition never_done :: device where
  "never_done = (\<lambda>h a. 0)"

definition done_after :: "nat \<Rightarrow> device" where
  "done_after n = (\<lambda>h a. if n \<le> length h then NN_STAT_DONE else 0)"

text \<open>
  The finite numbers of IEEE 754 binary32 (the C \<^verbatim>\<open>float\<close> of the target): a
  significand of at most 24 bits times a power of two in the format's range. A rounding
  is exact on them when it returns every such number unchanged, as the rounding of a
  floating-point operation does in every rounding mode.
\<close>

definition is_binary32 :: "rat \<Rightarrow> bool" where
  "is_binary32 x \<longleftrightarrow>
     (\<exists>m e :: int. \<bar>m\<bar> < 2 ^ 24 \<and> - 149 \<le> e \<and> e \<le> 104 \<and> x = of_int m * 2 powi e)"

definition exact_on_binary32 :: "rounding \<Rightarrow> bool" where
  "exact_on_binary32 rnd \<longleftrightarrow> (\<forall>x. is_binary32 x \<longrightarrow> rnd x = x)"

text \<open>
  The running sum as the code accumulates it, from a start value: every addition is
  rounded.
\<close>

definition running_sum :: "rounding \<Rightarrow> rat \<Rightarrow> s16 list \<Rightarrow> rat" where
  "running_sum rnd s xs = foldl (\<lambda>s x. rnd (s + FIXED_TO_FLOAT rnd x)) s xs"

text \<open>
  The rounding of IEEE 754 binary32 arithmetic in its default mode, round to nearest with
  ties to even, for magnitudes below \<open>2^128\<close> (larger ones overflow in the format; none
  arises in the driver). \<open>binary32_exponent\<close> finds the exponent of the unit in the last
  place: the least \<open>e\<close> from -149 on with \<open>\<bar>x\<bar> < 2^(e+24)\<close>.
\<close>

fun binary32_exponent :: "nat \<Rightarrow> int \<Rightarrow> rat \<Rightarrow> int" where
  "binary32_exponent 0 e x = e"
| "binary32_exponent (Suc n) e x =
     (if \<bar>x\<bar> < 2 powi (e + 24) then e else binary32_exponent n (e + 1) x)"

definition round_half_even :: "rat \<Rightarrow> int" where
  "round_half_even y =
     (let f = \<lfloor>y\<rfloor>; d = y - of_int f
      in if d < 1 / 2 then f else if 1 / 2 < d then f + 1 else if even f then f else f + 1)"

definition rnd_binary32 :: rounding where
  "rnd_binary32 x =
     (let e = binary32_exponent 253 (- 149) x
      in of_int (round_half_even (x / 2 powi e)) * 2 powi e)"

text \<open>
  A vector of 1026 samples whose sum is exactly 0 and whose running sum in binary32 is
  not: 513 times the largest sample, then the smallest 512 times, then -32255.
\<close>

definition rounding_vector :: "s16 list" where
  "rounding_vector =
     replicate 512 32767 @ [32767, - 32768] @ replicate 511 (- 32768) @ [- 32255]"

section \<open>Initialisation and configuration\<close>

lemma NN_Reset_log: "io_log (NN_Reset w) = io_log w @ reset_events"
  by (simp add: NN_Reset_def NN_WRITE_def Xil_Out32_def usleep_def reset_events_def)

lemma NN_Reset_config: "g_config (NN_Reset w) = g_config w"
  by (simp add: NN_Reset_def NN_WRITE_def Xil_Out32_def usleep_def)

lemma NN_Configure_log:
  "io_log (NN_Configure a b c d w) = io_log w @ configure_events a b c d"
  by (simp add: NN_Configure_def NN_WRITE_def Xil_Out32_def configure_events_def)

lemma NN_Configure_config:
  "g_config (NN_Configure a b c d w) =
     (g_config w)\<lparr>num_inputs := a, num_hidden1 := b, num_hidden2 := c, num_outputs := d\<rparr>"
  by (simp add: NN_Configure_def NN_WRITE_def Xil_Out32_def)

lemma NN_Init_config:
  "g_config (snd (NN_Init config w)) = (held config w)\<lparr>initialized := 1\<rparr>"
  by (cases config)
    (simp_all add: NN_Init_def held_def Let_def NN_Configure_config NN_Reset_config)

lemma NN_Init_log:
  "io_log (snd (NN_Init config w)) =
     io_log w @ reset_events @
       configure_events (num_inputs (held config w)) (num_hidden1 (held config w))
         (num_hidden2 (held config w)) (num_outputs (held config w))"
  by (cases config)
    (simp_all add: NN_Init_def held_def Let_def NN_Configure_log NN_Reset_log NN_Reset_config)

text \<open>
  Claim C5. \<^verbatim>\<open>NN_Init(NULL)\<close> twice in a row: after the first and after the second call
  the topology is the one held before, and the initialized flag is 1; the second call
  leaves the configuration as the first left it. Every call (with or without a
  configuration) adds to the bus exactly the reset sequence followed by the four size
  writes of the configuration it works with, and leaves that configuration with the
  flag set; a supplied configuration replaces the held one as a whole.
\<close>

theorem NN_Init_idempotent:
  "topology (g_config (snd (NN_Init None w))) = topology (g_config w) \<and>
   topology (g_config (snd (NN_Init None (snd (NN_Init None w))))) = topology (g_config w) \<and>
   initialized (g_config (snd (NN_Init None w))) = 1 \<and>
   initialized (g_config (snd (NN_Init None (snd (NN_Init None w))))) = 1 \<and>
   g_config (snd (NN_Init None (snd (NN_Init None w)))) = g_config (snd (NN_Init None w)) \<and>
   io_log (snd (NN_Init config w)) =
     io_log w @ reset_events @
       configure_events (num_inputs (held config w)) (num_hidden1 (held config w))
         (num_hidden2 (held config w)) (num_outputs (held config w)) \<and>
   g_config (snd (NN_Init config w)) = (held config w)\<lparr>initialized := 1\<rparr> \<and>
   held (Some c) w = c \<and> held None w = g_config w"
  by (simp add: NN_Init_config NN_Init_log topology_def held_def)

theorem NN_Init_idempotent_witness:
  "g_config (snd (NN_Init None (snd (NN_Init None world_init)))) =
     g_config_init\<lparr>initialized := 1\<rparr> \<and>
   io_log (snd (NN_Init None (snd (NN_Init None world_init)))) =
     reset_events @ configure_events 784 16 16 10 @
     reset_events @ configure_events 784 16 16 10"
  using NN_Init_idempotent [of world_init None]
    NN_Init_idempotent [of "snd (NN_Init None world_init)" None]
  by (simp add: held_def world_init_def g_config_init_def NN_DEFAULT_NUM_IN_def
      NN_DEFAULT_NUM_H1_def NN_DEFAULT_NUM_H2_def NN_DEFAULT_NUM_OUT_def)

text \<open>
  Claim C8. \<^verbatim>\<open>NN_Init\<close> returns 0 for every argument and in every state; it never
  returns the documented failure value -1.
\<close>

theorem NN_Init_returns_zero:
  "fst (NN_Init config w) = 0 \<and> fst (NN_Init config w) \<noteq> - 1"
  by (simp add: NN_Init_def Let_def)

text \<open>
  Claim C9. \<^verbatim>\<open>NN_Configure\<close> leaves \<^verbatim>\<open>base_addr\<close> and \<^verbatim>\<open>initialized\<close> of the held
  configuration as they were; the four topology fields become the arguments.
\<close>

theorem NN_Configure_frame:
  "base_addr (g_config (NN_Configure num_in num_h1 num_h2 num_out w)) = base_addr (g_config w) \<and>
   initialized (g_config (NN_Configure num_in num_h1 num_h2 num_out w)) =
     initialized (g_config w) \<and>
   topology (g_config (NN_Configure num_in num_h1 num_h2 num_out w)) =
     (num_in, num_h1, num_h2, num_out)"
  by (simp add: NN_Configure_config topology_def)

section \<open>Classification\<close>

lemma first_max_step_gt:
  "first_max outputs m k \<Longrightarrow> sint (outputs ! k) < sint (outputs ! m) \<Longrightarrow>
   first_max outputs (Suc m) m"
  unfolding first_max_def by (auto simp: less_Suc_eq)

lemma first_max_step_le:
  "first_max outputs m k \<Longrightarrow> \<not> sint (outputs ! k) < sint (outputs ! m) \<Longrightarrow>
   first_max outputs (Suc m) k"
  unfolding first_max_def by (auto simp: less_Suc_eq)

lemma first_max_unique: "first_max outputs m k \<Longrightarrow> first_max outputs m k' \<Longrightarrow> k = k'"
  unfolding first_max_def by (metis linorder_neqE_nat not_less)

lemma u16_succ: "(i::u16) < n \<Longrightarrow> unat (i + 1) = Suc (unat i)"
proof -
  assume "i < n"
  then have "unat i < unat n" by (simp add: word_less_nat_alt)
  moreover have "unat n < 2 ^ 16" using unsigned_less [of n] by simp
  ultimately have "unat i + 1 < 2 ^ 16" by simp
  then show ?thesis by (simp add: unat_word_ariths)
qed

text \<open>
  The loop invariant: on entry to the test at counter \<open>i\<close>, the pair
  (\<^verbatim>\<open>max_val\<close>, \<^verbatim>\<open>max_idx\<close>) is the first maximum of the samples before \<open>i\<close>.
\<close>

lemma NN_Classify_loop_first_max:
  "first_max outputs (unat i) k \<Longrightarrow> max_val = outputs ! k \<Longrightarrow> max_idx = int k \<Longrightarrow>
   i \<le> num_out \<Longrightarrow> unat num_out \<le> length outputs \<Longrightarrow>
   \<exists>k'. NN_Classify_loop outputs num_out i max_val max_idx = Some (int k') \<and>
        first_max outputs (unat num_out) k'"
proof (induction outputs num_out i max_val max_idx arbitrary: k rule: NN_Classify_loop.induct)
  case (1 outputs num_out i max_val max_idx)
  show ?case
  proof (cases "i < num_out")
    case False
    with "1.prems" have "i = num_out" by simp
    with "1.prems" False show ?thesis by auto
  next
    case True
    then have suc: "unat (i + 1) = Suc (unat i)" by (rule u16_succ)
    from True have le: "i + 1 \<le> num_out" by (simp add: inc_le)
    from True "1.prems" have inb: "unat i < length outputs"
      by (simp add: word_less_nat_alt)
    show ?thesis
    proof (cases "sint max_val < sint (outputs ! unat i)")
      case gt: True
      from "1.prems" gt have fm: "first_max outputs (unat (i + 1)) (unat i)"
        by (simp add: suc first_max_step_gt)
      have "\<exists>k'. NN_Classify_loop outputs num_out (i + 1) (outputs ! unat i) (uint i)
                    = Some (int k') \<and>
              first_max outputs (unat num_out) k'"
        by (rule "1.IH"(1) [OF True inb gt fm]) (simp_all add: le "1.prems")
      with True inb gt show ?thesis by simp
    next
      case ngt: False
      from "1.prems" ngt have fm: "first_max outputs (unat (i + 1)) k"
        by (simp add: suc first_max_step_le)
      have "\<exists>k'. NN_Classify_loop outputs num_out (i + 1) max_val max_idx = Some (int k') \<and>
              first_max outputs (unat num_out) k'"
        by (rule "1.IH"(2) [OF True inb ngt fm]) (simp_all add: le "1.prems")
      with True inb ngt show ?thesis by simp
    qed
  qed
qed

text \<open>
  Claim C1. For a vector of at least one sample (and an array that holds the
  \<^verbatim>\<open>num_outputs\<close> samples), \<^verbatim>\<open>NN_Classify\<close> returns the index of the first maximum: the
  lowest index among those that attain the greatest signed value.
\<close>

theorem NN_Classify_first_max:
  assumes "1 \<le> unat num_out" and "unat num_out \<le> length outputs"
  shows "\<exists>k. NN_Classify outputs num_out = Some (int k) \<and> first_max outputs (unat num_out) k"
proof -
  from assms obtain x xs where xs: "outputs = x # xs" by (cases outputs) auto
  have fm: "first_max outputs (unat (1::u16)) 0" by (simp add: first_max_def)
  from assms have "(1::u16) \<le> num_out" by (simp add: word_le_nat_alt)
  from NN_Classify_loop_first_max [OF fm _ _ this assms(2), of x 0]
  show ?thesis by (simp add: xs NN_Classify_def)
qed

text \<open>The example of the specification: the samples 5, 5, 3, 5, 0, ... give index 0.\<close>

theorem NN_Classify_first_max_witness:
  "1 \<le> unat (10::u16) \<and> unat (10::u16) \<le> length [5, 5, 3, 5, 0, 0, 0, 0, 0, 0 :: s16] \<and>
   NN_Classify [5, 5, 3, 5, 0, 0, 0, 0, 0, 0] 10 = Some 0"
proof -
  let ?v = "[5, 5, 3, 5, 0, 0, 0, 0, 0, 0 :: s16]"
  have h1: "1 \<le> unat (10::u16)" and h2: "unat (10::u16) \<le> length ?v" by simp_all
  from NN_Classify_first_max [OF h1 h2] obtain k where
    k: "NN_Classify ?v 10 = Some (int k)" "first_max ?v (unat (10::u16)) k" by blast
  have "first_max ?v (unat (10::u16)) 0" by code_simp
  with k(2) have "k = 0" by (rule first_max_unique)
  with k(1) h1 h2 show ?thesis by simp
qed

section \<open>Waiting for completion\<close>

subsection \<open>The polling loop, cycle by cycle\<close>

lemma elapsed_after_0: "elapsed_after 0 = 0"
  by (simp add: elapsed_after_def)

lemma elapsed_after_Suc: "elapsed_after (Suc k) = elapsed_after k + 100"
  by (simp add: elapsed_after_def)

lemma done_at_Suc: "done_at dev w (Suc k) = done_at dev (usleep 100 (snd (NN_IsDone dev w))) k"
  by (simp add: done_at_def)

lemma loop_unfold_not_done:
  "\<not> done_at dev w 0 \<Longrightarrow>
   NN_WaitDone_loop dev t e w =
     (if expired t e then Some (- 1, snd (NN_IsDone dev w))
      else NN_WaitDone_loop dev t (e + 100) (usleep 100 (snd (NN_IsDone dev w))))"
  by (subst NN_WaitDone_loop.simps) (cases "NN_IsDone dev w", simp add: done_at_def expired_def)

lemma loop_unfold_done:
  "done_at dev w 0 \<Longrightarrow> NN_WaitDone_loop dev t e w = Some (0, snd (NN_IsDone dev w))"
  by (subst NN_WaitDone_loop.simps) (cases "NN_IsDone dev w", simp add: done_at_def)

lemma loop_done:
  "\<forall>j<k. \<not> done_at dev w j \<Longrightarrow> done_at dev w k \<Longrightarrow>
   \<forall>j<k. \<not> expired t (e + elapsed_after j) \<Longrightarrow>
   NN_WaitDone_loop dev t e w = Some (0, snd (NN_IsDone dev (poll_cycles dev k w)))"
proof (induction k arbitrary: e w)
  case 0
  then show ?case by (simp add: loop_unfold_done)
next
  case (Suc k)
  let ?w' = "usleep 100 (snd (NN_IsDone dev w))"
  from Suc.prems(1) have nd0: "\<not> done_at dev w 0" by blast
  from Suc.prems(3) have ne0: "\<not> expired t e" by (force simp: elapsed_after_0)
  have a: "\<forall>j<k. \<not> done_at dev ?w' j"
    using Suc.prems(1) by (auto simp: done_at_Suc [symmetric])
  have b: "done_at dev ?w' k"
    using Suc.prems(2) by (simp add: done_at_Suc)
  have c: "\<forall>j<k. \<not> expired t (e + 100 + elapsed_after j)"
  proof (intro allI impI)
    fix j assume "j < k"
    then have "\<not> expired t (e + elapsed_after (Suc j))" using Suc.prems(3) by blast
    then show "\<not> expired t (e + 100 + elapsed_after j)" by (simp add: elapsed_after_Suc algebra_simps)
  qed
  from Suc.IH [OF a b c] nd0 ne0 show ?case
    by (simp add: loop_unfold_not_done)
qed

lemma loop_timeout:
  "\<forall>j\<le>k. \<not> done_at dev w j \<Longrightarrow>
   \<forall>j<k. \<not> expired t (e + elapsed_after j) \<Longrightarrow> expired t (e + elapsed_after k) \<Longrightarrow>
   NN_WaitDone_loop dev t e w = Some (- 1, snd (NN_IsDone dev (poll_cycles dev k w)))"
proof (induction k arbitrary: e w)
  case 0
  then show ?case by (simp add: loop_unfold_not_done elapsed_after_0)
next
  case (Suc k)
  let ?w' = "usleep 100 (snd (NN_IsDone dev w))"
  from Suc.prems(1) have nd0: "\<not> done_at dev w 0" by blast
  from Suc.prems(2) have ne0: "\<not> expired t e" by (force simp: elapsed_after_0)
  have a: "\<forall>j\<le>k. \<not> done_at dev ?w' j"
    using Suc.prems(1) by (auto simp: done_at_Suc [symmetric])
  have c: "\<forall>j<k. \<not> expired t (e + 100 + elapsed_after j)"
  proof (intro allI impI)
    fix j assume "j < k"
    then have "\<not> expired t (e + elapsed_after (Suc j))" using Suc.prems(2) by blast
    then show "\<not> expired t (e + 100 + elapsed_after j)" by (simp add: elapsed_after_Suc algebra_simps)
  qed
  have d: "expired t (e + 100 + elapsed_after k)"
    using Suc.prems(3) by (simp add: elapsed_after_Suc algebra_simps)
  from Suc.IH [OF a c d] nd0 ne0 show ?case
    by (simp add: loop_unfold_not_done)
qed

lemma loop_Some_cycle:
  "NN_WaitDone_loop dev t e w = Some y \<Longrightarrow>
   \<exists>k. (\<forall>j<k. \<not> done_at dev w j \<and> \<not> expired t (e + elapsed_after j)) \<and>
       (done_at dev w k \<and> y = (0, snd (NN_IsDone dev (poll_cycles dev k w))) \<or>
        \<not> done_at dev w k \<and> expired t (e + elapsed_after k) \<and>
          y = (- 1, snd (NN_IsDone dev (poll_cycles dev k w))))"
proof (induction rule: NN_WaitDone_loop.raw_induct [rotated 1, consumes 1])
  case (1 loop dev t e w y)
  show ?case
  proof (cases "done_at dev w 0")
    case True
    with 1(2) have "y = (0, snd (NN_IsDone dev w))"
      by (auto simp: done_at_def split: prod.splits if_splits)
    with True show ?thesis by (intro exI [of _ 0]) simp
  next
    case nd: False
    show ?thesis
    proof (cases "expired t e")
      case True
      with nd 1(2) have "y = (- 1, snd (NN_IsDone dev w))"
        by (auto simp: done_at_def expired_def split: prod.splits if_splits)
      with True nd show ?thesis by (intro exI [of _ 0]) (simp add: elapsed_after_0)
    next
      case ne: False
      let ?w' = "usleep 100 (snd (NN_IsDone dev w))"
      from nd ne 1(2) have "loop dev t (e + 100) ?w' = Some y"
        by (auto simp: done_at_def expired_def split: prod.splits if_splits)
      from 1(1) [OF this] obtain k where
        k: "\<forall>j<k. \<not> done_at dev ?w' j \<and> \<not> expired t (e + 100 + elapsed_after j)"
           "done_at dev ?w' k \<and> y = (0, snd (NN_IsDone dev (poll_cycles dev k ?w'))) \<or>
            \<not> done_at dev ?w' k \<and> expired t (e + 100 + elapsed_after k) \<and>
              y = (- 1, snd (NN_IsDone dev (poll_cycles dev k ?w')))"
        by blast
      have "\<forall>j<Suc k. \<not> done_at dev w j \<and> \<not> expired t (e + elapsed_after j)"
      proof (intro allI impI)
        fix j assume j: "j < Suc k"
        show "\<not> done_at dev w j \<and> \<not> expired t (e + elapsed_after j)"
        proof (cases j)
          case 0
          with nd ne show ?thesis by (simp add: elapsed_after_0)
        next
          case (Suc i)
          with j k(1) have "\<not> done_at dev ?w' i \<and> \<not> expired t (e + 100 + elapsed_after i)" by simp
          with Suc show ?thesis by (simp add: done_at_Suc elapsed_after_Suc algebra_simps)
        qed
      qed
      moreover from k(2) have
        "done_at dev w (Suc k) \<and> y = (0, snd (NN_IsDone dev (poll_cycles dev (Suc k) w))) \<or>
         \<not> done_at dev w (Suc k) \<and> expired t (e + elapsed_after (Suc k)) \<and>
           y = (- 1, snd (NN_IsDone dev (poll_cycles dev (Suc k) w)))"
        by (simp add: done_at_Suc elapsed_after_Suc algebra_simps)
      ultimately show ?thesis by blast
    qed
  qed
qed

lemma loop_None:
  assumes "\<forall>j. \<not> done_at dev w j" and "\<forall>j. \<not> expired t (e + elapsed_after j)"
  shows "NN_WaitDone_loop dev t e w = None"
proof (cases "NN_WaitDone_loop dev t e w")
  case None
  then show ?thesis .
next
  case (Some y)
  from loop_Some_cycle [OF this] assms show ?thesis by blast
qed

subsection \<open>Bus history and configuration during polling\<close>

lemma slept_append: "slept (xs @ ys) = slept xs + slept ys"
  by (induction xs rule: slept.induct) simp_all

lemma NN_IsDone_log:
  "io_log (snd (NN_IsDone dev w)) =
     io_log w @ [Read (NN_BASEADDR + NN_REG_STATUS) (dev (io_log w) (NN_BASEADDR + NN_REG_STATUS))]"
  by (simp add: NN_IsDone_def NN_READ_def Xil_In32_def Let_def)

lemma NN_IsDone_config: "g_config (snd (NN_IsDone dev w)) = g_config w"
  by (simp add: NN_IsDone_def NN_READ_def Xil_In32_def Let_def)

lemma NN_IsDone_fst:
  "fst (NN_IsDone dev w) =
     (if dev (io_log w) (NN_BASEADDR + NN_REG_STATUS) AND NN_STAT_DONE \<noteq> 0 then 1 else 0)"
  by (simp add: NN_IsDone_def NN_READ_def Xil_In32_def Let_def)

lemma poll_cycles_config: "g_config (poll_cycles dev k w) = g_config w"
  by (induction k arbitrary: w) (simp_all add: NN_IsDone_config usleep_def)

lemma poll_cycles_slept: "slept (io_log (poll_cycles dev k w)) = slept (io_log w) + 100 * k"
  by (induction k arbitrary: w) (simp_all add: NN_IsDone_log usleep_def slept_append)

lemma unat_elapsed_after: "100 * k < 2 ^ 32 \<Longrightarrow> unat (elapsed_after k) = 100 * k"
  unfolding elapsed_after_def by (simp only: unat_of_nat) simp

lemma expired_no_wrap:
  "100 * k < 2 ^ 32 \<Longrightarrow> expired t (elapsed_after k) \<longleftrightarrow> 0 < unat t \<and> unat t \<le> 100 * k"
  by (simp add: expired_def word_le_nat_alt word_less_nat_alt unat_elapsed_after)

lemma NN_WaitDone_done:
  assumes "\<forall>j<k. \<not> done_at dev w j" and "done_at dev w k"
    and "\<forall>j<k. \<not> expired t (elapsed_after j)"
  shows "NN_WaitDone dev t w = Some (0, snd (NN_IsDone dev (poll_cycles dev k w)))"
  unfolding NN_WaitDone_def using loop_done [OF assms(1,2), of t 0] assms(3) by simp

lemma NN_WaitDone_timeout:
  assumes "\<forall>j\<le>k. \<not> done_at dev w j"
    and "\<forall>j<k. \<not> expired t (elapsed_after j)" and "expired t (elapsed_after k)"
  shows "NN_WaitDone dev t w = Some (- 1, snd (NN_IsDone dev (poll_cycles dev k w)))"
  unfolding NN_WaitDone_def using loop_timeout [OF assms(1), of t 0] assms(2,3) by simp

lemma never_done_at: "\<not> done_at never_done w k"
  by (simp add: done_at_def NN_IsDone_fst never_done_def)

lemma poll_cycles_length: "length (io_log (poll_cycles dev k w)) = length (io_log w) + 2 * k"
  by (induction k arbitrary: w) (simp_all add: NN_IsDone_log usleep_def)

lemma done_after_at: "done_at (done_after n) w k \<longleftrightarrow> n \<le> length (io_log w) + 2 * k"
  by (simp add: done_at_def NN_IsDone_fst done_after_def poll_cycles_length NN_STAT_DONE_def)

subsection \<open>Timeouts that the 32-bit counter reaches without wrapping\<close>

lemma deadline_cycle_no_wrap:
  assumes "unat t \<le> 4294967200"
  shows "100 * deadline_cycle t < 2 ^ 32"
proof -
  from assms have "(unat t + 99) div 100 \<le> (4294967200 + 99) div 100"
    by (intro div_le_mono) simp
  then have "deadline_cycle t \<le> 42949672" by (simp add: deadline_cycle_def)
  then have "100 * deadline_cycle t \<le> 100 * 42949672" by (rule mult_le_mono2)
  then show ?thesis by simp
qed

lemma deadline_cycle_reached: "unat t \<le> 100 * deadline_cycle t"
  unfolding deadline_cycle_def by arith

lemma deadline_cycle_least: "j < deadline_cycle t \<Longrightarrow> 100 * j < unat t"
  unfolding deadline_cycle_def by arith

lemma not_expired_before_deadline:
  assumes "j < deadline_cycle t"
  shows "\<not> expired t (elapsed_after j)"
proof -
  from deadline_cycle_least [OF assms] have lt: "100 * j < unat t" .
  moreover have "unat t < 2 ^ 32" using unsigned_less [of t] by simp
  ultimately have "100 * j < 2 ^ 32" by simp
  from expired_no_wrap [OF this] lt show ?thesis by simp
qed

lemma expired_at_deadline:
  assumes "0 < t" and "unat t \<le> 4294967200"
  shows "expired t (elapsed_after (deadline_cycle t))"
  using expired_no_wrap [OF deadline_cycle_no_wrap [OF assms(2)], of t]
    deadline_cycle_reached [of t] assms(1)
  by (simp add: word_less_nat_alt)

lemma NN_WaitDone_in_range_timeout:
  assumes "0 < t" and "unat t \<le> 4294967200"
    and "\<forall>j\<le>deadline_cycle t. \<not> done_at dev w j"
  shows "NN_WaitDone dev t w =
           Some (- 1, snd (NN_IsDone dev (poll_cycles dev (deadline_cycle t) w)))"
  by (rule NN_WaitDone_timeout [OF assms(3)])
    (simp_all add: not_expired_before_deadline expired_at_deadline [OF assms(1,2)])

lemma NN_WaitDone_in_range_done:
  assumes "k \<le> deadline_cycle t" and "\<forall>j<k. \<not> done_at dev w j" and "done_at dev w k"
  shows "NN_WaitDone dev t w = Some (0, snd (NN_IsDone dev (poll_cycles dev k w)))"
  by (rule NN_WaitDone_done [OF assms(2,3)])
    (use assms(1) in \<open>simp add: not_expired_before_deadline\<close>)

text \<open>
  For such a timeout the wait always returns: with 0 from the first cycle that sees DONE,
  if there is one up to the deadline cycle, and with -1 from the deadline cycle otherwise.
\<close>

lemma NN_WaitDone_in_range_total:
  assumes "0 < t" and "unat t \<le> 4294967200"
  shows "\<exists>r k. k \<le> deadline_cycle t \<and>
           NN_WaitDone dev t w = Some (r, snd (NN_IsDone dev (poll_cycles dev k w))) \<and>
           (r = 0 \<or> r = - 1) \<and>
           (r = - 1 \<longleftrightarrow> (\<forall>j\<le>deadline_cycle t. \<not> done_at dev w j)) \<and>
           (r = - 1 \<longrightarrow> k = deadline_cycle t) \<and>
           (r = 0 \<longrightarrow> done_at dev w k \<and> (\<forall>j<k. \<not> done_at dev w j))"
proof (cases "\<exists>k. done_at dev w k \<and> k \<le> deadline_cycle t")
  case True
  then obtain k where k: "done_at dev w k \<and> k \<le> deadline_cycle t"
      "\<forall>j<k. \<not> (done_at dev w j \<and> j \<le> deadline_cycle t)"
    using exists_least_iff [of "\<lambda>k. done_at dev w k \<and> k \<le> deadline_cycle t"] by blast
  then have first: "\<forall>j<k. \<not> done_at dev w j" by auto
  from NN_WaitDone_in_range_done [OF _ this, of t] k(1)
  have "NN_WaitDone dev t w = Some (0, snd (NN_IsDone dev (poll_cycles dev k w)))" by simp
  with k(1) first show ?thesis by (intro exI [of _ 0] exI [of _ k]) auto
next
  case False
  then have nd: "\<forall>j\<le>deadline_cycle t. \<not> done_at dev w j" by blast
  from NN_WaitDone_in_range_timeout [OF assms nd] nd show ?thesis
    by (intro exI [of _ "- 1"] exI [of _ "deadline_cycle t"]) simp
qed

text \<open>
  When no status read up to the deadline cycle sees DONE, the time slept at the return
  of -1 is the least multiple of 100 that has reached the timeout.
\<close>

lemma NN_WaitDone_in_range_timeout_slept:
  assumes "0 < t" and "unat t \<le> 4294967200"
    and "\<forall>j\<le>deadline_cycle t. \<not> done_at dev w j"
  shows "\<exists>w'. NN_WaitDone dev t w = Some (- 1, w') \<and>
           slept (io_log w') = slept (io_log w) + 100 * deadline_cycle t \<and>
           unat t \<le> 100 * deadline_cycle t \<and> 100 * deadline_cycle t < unat t + 100"
proof -
  have "100 * deadline_cycle t < unat t + 100"
    unfolding deadline_cycle_def by arith
  with NN_WaitDone_in_range_timeout [OF assms] deadline_cycle_reached [of t] show ?thesis
    by (simp add: NN_IsDone_log slept_append poll_cycles_slept)
qed

text \<open>The example of the specification: a timeout of 1000 against a device never done.\<close>

lemma NN_WaitDone_timeout_1000:
  "NN_WaitDone never_done 1000 w =
     Some (- 1, snd (NN_IsDone never_done (poll_cycles never_done 10 w)))"
proof -
  have "deadline_cycle 1000 = 10" by (simp add: deadline_cycle_def)
  with NN_WaitDone_in_range_timeout [of 1000 never_done w] show ?thesis
    by (simp add: never_done_at)
qed

text \<open>
  Beyond that range the counter wraps around before it reaches the timeout. It only ever
  holds multiples of 100 modulo \<open>2^32\<close>, which are even.
\<close>

lemma never_expired_max: "\<not> expired 0xFFFFFFFF (elapsed_after j)"
proof
  assume "expired 0xFFFFFFFF (elapsed_after j)"
  then have "(0xFFFFFFFF :: u32) \<le> elapsed_after j" by (simp add: expired_def)
  moreover have "(0xFFFFFFFF :: u32) = - 1" by simp
  ultimately have "(- 1 :: u32) \<le> elapsed_after j" by (simp only:)
  then have "elapsed_after j = - 1" by (simp add: word_order.extremum_unique)
  moreover have "even (elapsed_after j)" by (simp add: elapsed_after_def)
  ultimately show False by simp
qed

lemma done_after_0_trace:
  "snd (NN_IsDone (done_after 0) world_init) =
     \<lparr>g_config = g_config_init,
      io_log = [Read (NN_BASEADDR + NN_REG_STATUS) NN_STAT_DONE]\<rparr>"
  by (simp add: NN_IsDone_def NN_READ_def Xil_In32_def done_after_def world_init_def)

lemma done_after_4_trace:
  "snd (NN_IsDone (done_after 4) (poll_cycles (done_after 4) 2 world_init)) =
     \<lparr>g_config = g_config_init,
      io_log = [Read (NN_BASEADDR + NN_REG_STATUS) 0, Sleep 100,
                Read (NN_BASEADDR + NN_REG_STATUS) 0, Sleep 100,
                Read (NN_BASEADDR + NN_REG_STATUS) NN_STAT_DONE]\<rparr>"
  by (simp add: numeral_2_eq_2 NN_IsDone_def NN_READ_def Xil_In32_def usleep_def
      done_after_def world_init_def)

subsection \<open>What the wait returns\<close>

text \<open>
  Claim C2, at the input where the code leaves it. The claim promises the return value -1
  for every nonzero timeout once the accumulated sleeping time has reached it. With the
  timeout \<^verbatim>\<open>0xFFFFFFFF\<close> and a device that never reports DONE, \<^verbatim>\<open>NN_WaitDone\<close> does not
  return at all: the counter \<^verbatim>\<open>elapsed\<close> wraps around modulo \<open>2^32\<close>, stays even and so
  never reaches the odd timeout.
\<close>

theorem NN_WaitDone_max_timeout_never_returns:
  "NN_WaitDone never_done 0xFFFFFFFF w = None"
  unfolding NN_WaitDone_def
  by (rule loop_None) (simp_all add: never_done_at never_expired_max)

text \<open>
  Claim C3. With the timeout 0, \<^verbatim>\<open>NN_WaitDone\<close> never returns a value other than 0; it
  does not return as long as no status read sees DONE; and it returns 0 from the first
  cycle whose status read sees DONE, whatever the number of cycles before it. The state
  returned is the one after that many cycles of one status read and one 100 microsecond
  sleep, and the final status read.
\<close>

theorem NN_WaitDone_zero_timeout:
  "(\<forall>y. NN_WaitDone dev 0 w = Some y \<longrightarrow> fst y = 0) \<and>
   ((\<forall>j. \<not> done_at dev w j) \<longrightarrow> NN_WaitDone dev 0 w = None) \<and>
   (\<forall>k. (\<forall>j<k. \<not> done_at dev w j) \<and> done_at dev w k \<longrightarrow>
      NN_WaitDone dev 0 w = Some (0, snd (NN_IsDone dev (poll_cycles dev k w))))"
proof (intro conjI allI impI)
  fix y assume "NN_WaitDone dev 0 w = Some y"
  then have "NN_WaitDone_loop dev 0 0 w = Some y" by (simp add: NN_WaitDone_def)
  from loop_Some_cycle [OF this] show "fst y = 0" by (auto simp: expired_def)
next
  assume "\<forall>j. \<not> done_at dev w j"
  then show "NN_WaitDone dev 0 w = None"
    unfolding NN_WaitDone_def by (rule loop_None) (simp add: expired_def)
next
  fix k assume "(\<forall>j<k. \<not> done_at dev w j) \<and> done_at dev w k"
  then show "NN_WaitDone dev 0 w = Some (0, snd (NN_IsDone dev (poll_cycles dev k w)))"
    by (intro NN_WaitDone_done) (simp_all add: expired_def)
qed

text \<open>
  Against a device that reports DONE from the third status read on, and against one that
  never does.
\<close>

theorem NN_WaitDone_zero_timeout_witness:
  "NN_WaitDone (done_after 4) 0 world_init =
     Some (0, \<lparr>g_config = g_config_init,
               io_log = [Read (NN_BASEADDR + NN_REG_STATUS) 0, Sleep 100,
                         Read (NN_BASEADDR + NN_REG_STATUS) 0, Sleep 100,
                         Read (NN_BASEADDR + NN_REG_STATUS) NN_STAT_DONE]\<rparr>) \<and>
   NN_WaitDone never_done 0 world_init = None"
proof -
  have a: "(\<forall>j<2. \<not> done_at (done_after 4) world_init j) \<and> done_at (done_after 4) world_init 2"
    by (auto simp: done_after_at world_init_def)
  have b: "\<forall>j. \<not> done_at never_done world_init j" by (simp add: never_done_at)
  from NN_WaitDone_zero_timeout [of "done_after 4" world_init] a
  have "NN_WaitDone (done_after 4) 0 world_init =
     Some (0, snd (NN_IsDone (done_after 4) (poll_cycles (done_after 4) 2 world_init)))"
    by blast
  moreover from NN_WaitDone_zero_timeout [of never_done world_init] b
  have "NN_WaitDone never_done 0 world_init = None" by blast
  ultimately show ?thesis by (simp add: done_after_4_trace)
qed

text \<open>
  Claim C10. \<^verbatim>\<open>NN_WaitDone\<close> returns 0 or -1 only. If the first status read sees DONE
  it returns 0 at once, for every timeout: the bus history grows by that one read and by
  no sleep. In general the status is read before the deadline is tested: a cycle that
  sees DONE returns 0 whether or not the deadline has been reached in it, provided no
  earlier cycle saw DONE or had reached the deadline.
\<close>

theorem NN_WaitDone_checks_done_first:
  "(\<forall>y. NN_WaitDone dev t w = Some y \<longrightarrow> fst y = 0 \<or> fst y = - 1) \<and>
   (done_at dev w 0 \<longrightarrow>
      NN_WaitDone dev t w = Some (0, snd (NN_IsDone dev w)) \<and>
      io_log (snd (NN_IsDone dev w)) =
        io_log w @ [Read (NN_BASEADDR + NN_REG_STATUS)
                      (dev (io_log w) (NN_BASEADDR + NN_REG_STATUS))]) \<and>
   (\<forall>k. (\<forall>j<k. \<not> done_at dev w j \<and> \<not> expired t (elapsed_after j)) \<and> done_at dev w k \<longrightarrow>
      NN_WaitDone dev t w = Some (0, snd (NN_IsDone dev (poll_cycles dev k w))))"
proof (intro conjI allI impI)
  fix y assume "NN_WaitDone dev t w = Some y"
  then have "NN_WaitDone_loop dev t 0 w = Some y" by (simp add: NN_WaitDone_def)
  from loop_Some_cycle [OF this] show "fst y = 0 \<or> fst y = - 1" by auto
next
  assume "done_at dev w 0"
  then show "NN_WaitDone dev t w = Some (0, snd (NN_IsDone dev w))"
    using NN_WaitDone_done [of 0 dev w t] by simp
next
  show "io_log (snd (NN_IsDone dev w)) =
        io_log w @ [Read (NN_BASEADDR + NN_REG_STATUS)
                      (dev (io_log w) (NN_BASEADDR + NN_REG_STATUS))]"
    by (rule NN_IsDone_log)
next
  fix k
  assume "(\<forall>j<k. \<not> done_at dev w j \<and> \<not> expired t (elapsed_after j)) \<and> done_at dev w k"
  then show "NN_WaitDone dev t w = Some (0, snd (NN_IsDone dev (poll_cycles dev k w)))"
    by (intro NN_WaitDone_done) simp_all
qed

text \<open>
  DONE already set on entry, with the timeout 1; and DONE first seen in cycle 2 with the
  timeout 200, that is in the very cycle in which the deadline test would succeed.
\<close>

theorem NN_WaitDone_checks_done_first_witness:
  "NN_WaitDone (done_after 0) 1 world_init =
     Some (0, \<lparr>g_config = g_config_init,
               io_log = [Read (NN_BASEADDR + NN_REG_STATUS) NN_STAT_DONE]\<rparr>) \<and>
   expired 200 (elapsed_after 2) \<and>
   NN_WaitDone (done_after 4) 200 world_init =
     Some (0, \<lparr>g_config = g_config_init,
               io_log = [Read (NN_BASEADDR + NN_REG_STATUS) 0, Sleep 100,
                         Read (NN_BASEADDR + NN_REG_STATUS) 0, Sleep 100,
                         Read (NN_BASEADDR + NN_REG_STATUS) NN_STAT_DONE]\<rparr>)"
proof -
  have a: "done_at (done_after 0) world_init 0" by (simp add: done_after_at)
  have e0: "\<not> expired 200 (elapsed_after 0)" and e1: "\<not> expired 200 (elapsed_after 1)"
    and e2: "expired 200 (elapsed_after 2)"
    by (simp_all add: expired_def elapsed_after_def)
  have b: "(\<forall>j<2. \<not> done_at (done_after 4) world_init j \<and> \<not> expired 200 (elapsed_after j)) \<and>
      done_at (done_after 4) world_init 2"
    using e0 e1 by (auto simp: done_after_at world_init_def less_2_cases_iff)
  from NN_WaitDone_checks_done_first [of "done_after 0" 1 world_init] a
  have "NN_WaitDone (done_after 0) 1 world_init =
      Some (0, snd (NN_IsDone (done_after 0) world_init))" by blast
  moreover from NN_WaitDone_checks_done_first [of "done_after 4" 200 world_init] b
  have "NN_WaitDone (done_after 4) 200 world_init =
      Some (0, snd (NN_IsDone (done_after 4) (poll_cycles (done_after 4) 2 world_init)))"
    by blast
  ultimately show ?thesis using e2 by (simp add: done_after_4_trace done_after_0_trace)
qed

section \<open>Running an inference\<close>

lemma NN_Start_log:
  "io_log (NN_Start dev w) =
     io_log w @
       [Read (NN_BASEADDR + NN_REG_CTRL) (dev (io_log w) (NN_BASEADDR + NN_REG_CTRL)),
        Write (NN_BASEADDR + NN_REG_CTRL)
          (dev (io_log w) (NN_BASEADDR + NN_REG_CTRL) OR (NN_CTRL_ENABLE OR NN_CTRL_START))]"
  by (simp add: NN_Start_def NN_READ_def NN_WRITE_def Xil_In32_def Xil_Out32_def Let_def)

lemma NN_Start_config: "g_config (NN_Start dev w) = g_config w"
  by (simp add: NN_Start_def NN_READ_def NN_WRITE_def Xil_In32_def Xil_Out32_def Let_def)

lemma deadline_cycle_10s: "deadline_cycle 10000000 = 100000"
  by (simp add: deadline_cycle_def)

lemma NN_RunInference_eq_wait:
  "NN_RunInference dev inputs num_in outputs num_out w =
     NN_WaitDone dev 10000000
       (NN_Start dev (if initialized (g_config w) = 0 then snd (NN_Init None w) else w))"
proof -
  let ?w2 = "NN_Start dev (if initialized (g_config w) = 0 then snd (NN_Init None w) else w)"
  from NN_WaitDone_in_range_total [of 10000000 dev ?w2]
  obtain r k where "NN_WaitDone dev 10000000 ?w2 =
      Some (r, snd (NN_IsDone dev (poll_cycles dev k ?w2)))" "r = 0 \<or> r = - 1"
    by auto
  then show ?thesis by (auto simp: NN_RunInference_def Let_def)
qed

text \<open>
  Claim C6. \<^verbatim>\<open>NN_RunInference\<close> is the wait with the timeout of 10000000 microseconds,
  entered in the state that \<^verbatim>\<open>NN_Start\<close> leaves, where \<^verbatim>\<open>NN_Start\<close> is preceded by
  \<^verbatim>\<open>NN_Init(NULL)\<close> exactly when the initialized flag is 0. It always returns, and its
  value is that of the wait: -1 exactly when none of the 100001 status reads up to the
  deadline cycle (after 10 seconds of sleeping) sees DONE, and 0 otherwise, from the
  first cycle that sees DONE. On the bus, the start is a read of the control register
  and a write of the value read with ENABLE and START set; with the flag at 0 the reset
  sequence and the four size writes come before it. The sizes written are those of the
  held configuration: the default topology only as long as \<^verbatim>\<open>NN_Configure\<close> has not
  changed it.
\<close>

theorem NN_RunInference_sequence:
  "NN_RunInference dev inputs num_in outputs num_out w =
     NN_WaitDone dev 10000000
       (NN_Start dev (if initialized (g_config w) = 0 then snd (NN_Init None w) else w)) \<and>
   (\<exists>r k. k \<le> 100000 \<and>
      NN_RunInference dev inputs num_in outputs num_out w =
        Some (r, snd (NN_IsDone dev (poll_cycles dev k
          (NN_Start dev (if initialized (g_config w) = 0 then snd (NN_Init None w) else w))))) \<and>
      (r = 0 \<or> r = - 1) \<and>
      (r = - 1 \<longleftrightarrow>
        (\<forall>j\<le>100000. \<not> done_at dev
          (NN_Start dev (if initialized (g_config w) = 0 then snd (NN_Init None w) else w)) j)) \<and>
      (r = - 1 \<longrightarrow> k = 100000) \<and>
      (r = 0 \<longrightarrow>
        done_at dev
          (NN_Start dev (if initialized (g_config w) = 0 then snd (NN_Init None w) else w)) k \<and>
        (\<forall>j<k. \<not> done_at dev
          (NN_Start dev (if initialized (g_config w) = 0 then snd (NN_Init None w) else w)) j))) \<and>
   (initialized (g_config w) = 0 \<longrightarrow>
      io_log (NN_Start dev (snd (NN_Init None w))) =
        io_log w @ reset_events @
        configure_events (num_inputs (g_config w)) (num_hidden1 (g_config w))
          (num_hidden2 (g_config w)) (num_outputs (g_config w)) @
        [Read (NN_BASEADDR + NN_REG_CTRL)
           (dev (io_log (snd (NN_Init None w))) (NN_BASEADDR + NN_REG_CTRL)),
         Write (NN_BASEADDR + NN_REG_CTRL)
           (dev (io_log (snd (NN_Init None w))) (NN_BASEADDR + NN_REG_CTRL)
              OR (NN_CTRL_ENABLE OR NN_CTRL_START))]) \<and>
   (initialized (g_config w) \<noteq> 0 \<longrightarrow>
      io_log (NN_Start dev w) =
        io_log w @
        [Read (NN_BASEADDR + NN_REG_CTRL) (dev (io_log w) (NN_BASEADDR + NN_REG_CTRL)),
         Write (NN_BASEADDR + NN_REG_CTRL)
           (dev (io_log w) (NN_BASEADDR + NN_REG_CTRL) OR (NN_CTRL_ENABLE OR NN_CTRL_START))])"
proof -
  let ?w2 = "NN_Start dev (if initialized (g_config w) = 0 then snd (NN_Init None w) else w)"
  have run: "NN_RunInference dev inputs num_in outputs num_out w = NN_WaitDone dev 10000000 ?w2"
    by (rule NN_RunInference_eq_wait)
  have "\<exists>r k. k \<le> 100000 \<and>
      NN_WaitDone dev 10000000 ?w2 = Some (r, snd (NN_IsDone dev (poll_cycles dev k ?w2))) \<and>
      (r = 0 \<or> r = - 1) \<and> (r = - 1 \<longleftrightarrow> (\<forall>j\<le>100000. \<not> done_at dev ?w2 j)) \<and>
      (r = - 1 \<longrightarrow> k = 100000) \<and>
      (r = 0 \<longrightarrow> done_at dev ?w2 k \<and> (\<forall>j<k. \<not> done_at dev ?w2 j))"
    using NN_WaitDone_in_range_total [of 10000000 dev ?w2] by (simp add: deadline_cycle_10s)
  with run show ?thesis
    by (simp add: NN_Start_log NN_Init_log held_def)
qed

text \<open>
  From the initial state against a device that never reports DONE: the outcome is -1,
  after initialisation, start and the 100000 sleeps of the wait. From a state that is
  already initialized, against a device that always reports DONE: the outcome is 0 and
  only the start and one status read reach the bus.
\<close>

theorem NN_RunInference_sequence_witness:
  "NN_RunInference never_done [] 784 [] 10 world_init =
     Some (- 1, snd (NN_IsDone never_done (poll_cycles never_done 100000
                  (NN_Start never_done (snd (NN_Init None world_init)))))) \<and>
   io_log (NN_Start never_done (snd (NN_Init None world_init))) =
     reset_events @ configure_events 784 16 16 10 @
     [Read (NN_BASEADDR + NN_REG_CTRL) 0, Write (NN_BASEADDR + NN_REG_CTRL) 3] \<and>
   NN_RunInference (done_after 0) [] 784 [] 10 (snd (NN_Init None world_init)) =
     Some (0, snd (NN_IsDone (done_after 0)
                  (NN_Start (done_after 0) (snd (NN_Init None world_init)))))"
proof -
  have i0: "(initialized (g_config world_init) = 0) = True"
    by (simp add: world_init_def g_config_init_def)
  have i1: "(initialized (g_config (snd (NN_Init None world_init))) = 0) = False"
    by (simp add: NN_Init_config)
  let ?w2 = "NN_Start never_done (snd (NN_Init None world_init))"
  let ?v2 = "NN_Start (done_after 0) (snd (NN_Init None world_init))"
  note never = NN_RunInference_sequence [of never_done "[]" 784 "[]" 10 world_init,
      THEN conjunct2, THEN conjunct1, unfolded i0 if_True]
  then obtain r k where rk:
      "NN_RunInference never_done [] 784 [] 10 world_init =
         Some (r, snd (NN_IsDone never_done (poll_cycles never_done k ?w2)))"
      "r = - 1 \<longleftrightarrow> (\<forall>j\<le>100000. \<not> done_at never_done ?w2 j)"
      "r = - 1 \<longrightarrow> k = 100000"
    by blast
  from rk(2) have "r = - 1" by (simp add: never_done_at)
  with rk have first: "NN_RunInference never_done [] 784 [] 10 world_init =
      Some (- 1, snd (NN_IsDone never_done (poll_cycles never_done 100000 ?w2)))"
    by simp
  note always = NN_RunInference_sequence [of "done_after 0" "[]" 784 "[]" 10
      "snd (NN_Init None world_init)", THEN conjunct2, THEN conjunct1, unfolded i1 if_False]
  then obtain r' k' where rk':
      "NN_RunInference (done_after 0) [] 784 [] 10 (snd (NN_Init None world_init)) =
         Some (r', snd (NN_IsDone (done_after 0) (poll_cycles (done_after 0) k' ?v2)))"
      "r' = 0 \<or> r' = - 1"
      "r' = - 1 \<longleftrightarrow> (\<forall>j\<le>100000. \<not> done_at (done_after 0) ?v2 j)"
      "r' = 0 \<longrightarrow> done_at (done_after 0) ?v2 k' \<and> (\<forall>j<k'. \<not> done_at (done_after 0) ?v2 j)"
    by blast
  have d0: "done_at (done_after 0) ?v2 0" by (simp add: done_after_at)
  with rk'(3) have "r' \<noteq> - 1" by blast
  with rk'(2) have r': "r' = 0" by simp
  with rk'(4) have "\<forall>j<k'. \<not> done_at (done_after 0) ?v2 j" by simp
  with d0 have "k' = 0" by (cases k') auto
  note NN_RunInference_sequence [of never_done "[]" 784 "[]" 10 world_init,
      THEN conjunct2, THEN conjunct2, THEN conjunct1, unfolded i0, THEN mp, OF TrueI]
  then have started: "io_log (NN_Start never_done (snd (NN_Init None world_init))) =
     reset_events @ configure_events 784 16 16 10 @
     [Read (NN_BASEADDR + NN_REG_CTRL) 0, Write (NN_BASEADDR + NN_REG_CTRL) 3]"
    by (simp add: world_init_def g_config_init_def never_done_def NN_DEFAULT_NUM_IN_def
        NN_DEFAULT_NUM_H1_def NN_DEFAULT_NUM_H2_def NN_DEFAULT_NUM_OUT_def
        NN_CTRL_ENABLE_def NN_CTRL_START_def)
  from \<open>k' = 0\<close> rk'(1) r' first started show ?thesis by simp
qed

text \<open>
  Claim C6 as first stated has the lazy initialisation use the defaults. It does not
  after \<^verbatim>\<open>NN_Configure(1, 2, 3, 4)\<close> from the initial state, which leaves the flag at 0:
  \<^verbatim>\<open>NN_RunInference\<close> then pushes 1, 2, 3, 4 to the size registers and keeps them in
  the configuration, not 784, 16, 16, 10.
\<close>

theorem NN_RunInference_defaults_counterexample:
  "initialized (g_config (NN_Configure 1 2 3 4 world_init)) = 0 \<and>
   NN_RunInference (done_after 0) [] 1 [] 4 (NN_Configure 1 2 3 4 world_init) =
     Some (0, \<lparr>g_config = \<lparr>base_addr = NN_BASEADDR, num_inputs = 1, num_hidden1 = 2,
                            num_hidden2 = 3, num_outputs = 4, initialized = 1\<rparr>,
               io_log = configure_events 1 2 3 4 @ reset_events @ configure_events 1 2 3 4 @
                        [Read (NN_BASEADDR + NN_REG_CTRL) NN_STAT_DONE,
                         Write (NN_BASEADDR + NN_REG_CTRL) 3,
                         Read (NN_BASEADDR + NN_REG_STATUS) NN_STAT_DONE]\<rparr>) \<and>
   configure_events 1 2 3 4 \<noteq>
     configure_events NN_DEFAULT_NUM_IN NN_DEFAULT_NUM_H1 NN_DEFAULT_NUM_H2 NN_DEFAULT_NUM_OUT"
proof -
  let ?w = "NN_Configure 1 2 3 4 world_init"
  have i: "initialized (g_config ?w) = 0"
    by (simp add: NN_Configure_config world_init_def g_config_init_def)
  let ?w2 = "NN_Start (done_after 0) (snd (NN_Init None ?w))"
  have "done_at (done_after 0) ?w2 0" by (simp add: done_after_at)
  then have "NN_WaitDone (done_after 0) 10000000 ?w2 =
      Some (0, snd (NN_IsDone (done_after 0) ?w2))"
    using NN_WaitDone_done [of 0 "done_after 0" ?w2 10000000] by simp
  with i have run: "NN_RunInference (done_after 0) [] 1 [] 4 ?w =
      Some (0, snd (NN_IsDone (done_after 0) ?w2))"
    by (simp add: NN_RunInference_eq_wait)
  have cfg: "g_config (snd (NN_IsDone (done_after 0) ?w2)) =
      \<lparr>base_addr = NN_BASEADDR, num_inputs = 1, num_hidden1 = 2,
       num_hidden2 = 3, num_outputs = 4, initialized = 1\<rparr>"
    by (simp add: NN_IsDone_config NN_Start_config NN_Init_config held_def NN_Configure_config
        world_init_def g_config_init_def)
  have log: "io_log (snd (NN_IsDone (done_after 0) ?w2)) =
      configure_events 1 2 3 4 @ reset_events @ configure_events 1 2 3 4 @
        [Read (NN_BASEADDR + NN_REG_CTRL) NN_STAT_DONE,
         Write (NN_BASEADDR + NN_REG_CTRL) 3,
         Read (NN_BASEADDR + NN_REG_STATUS) NN_STAT_DONE]"
    by (simp add: NN_IsDone_log NN_Start_log NN_Init_log held_def NN_Configure_log
        NN_Configure_config world_init_def done_after_def
        NN_STAT_DONE_def NN_CTRL_ENABLE_def NN_CTRL_START_def)
  have st: "snd (NN_IsDone (done_after 0) ?w2) =
     \<lparr>g_config = \<lparr>base_addr = NN_BASEADDR, num_inputs = 1, num_hidden1 = 2,
                            num_hidden2 = 3, num_outputs = 4, initialized = 1\<rparr>,
               io_log = configure_events 1 2 3 4 @ reset_events @ configure_events 1 2 3 4 @
                        [Read (NN_BASEADDR + NN_REG_CTRL) NN_STAT_DONE,
                         Write (NN_BASEADDR + NN_REG_CTRL) 3,
                         Read (NN_BASEADDR + NN_REG_STATUS) NN_STAT_DONE]\<rparr>"
    by (rule world.equality) (simp_all only: cfg log world.simps, simp_all)
  have ne: "configure_events 1 2 3 4 \<noteq>
     configure_events NN_DEFAULT_NUM_IN NN_DEFAULT_NUM_H1 NN_DEFAULT_NUM_H2 NN_DEFAULT_NUM_OUT"
    by (simp add: configure_events_def NN_DEFAULT_NUM_IN_def)
  from i run st ne show ?thesis by (simp only: simp_thms)
qed

section \<open>Fixed-point conversion\<close>

lemma NN_SCALE_eq: "NN_SCALE = 2048"
  by (simp add: NN_SCALE_def NN_FRAC_BITS_def)

lemma is_binary32_of_int: "\<bar>m\<bar> < 2 ^ 24 \<Longrightarrow> is_binary32 (of_int m)"
  unfolding is_binary32_def by (intro exI [of _ m] exI [of _ 0]) simp

lemma is_binary32_of_int_div_2048: "\<bar>m\<bar> < 2 ^ 24 \<Longrightarrow> is_binary32 (of_int m / 2048)"
  unfolding is_binary32_def by (intro exI [of _ m] exI [of _ "- 11"]) (simp add: power_int_minus field_simps)

lemma is_binary32_times_2048:
  assumes "is_binary32 x" and "\<bar>x\<bar> \<le> 16"
  shows "is_binary32 (x * 2048)"
proof -
  from assms(1) obtain m e :: int where
    me: "\<bar>m\<bar> < 2 ^ 24" "- 149 \<le> e" "e \<le> 104" "x = of_int m * 2 powi e"
    unfolding is_binary32_def by blast
  show ?thesis
  proof (cases "m = 0")
    case True
    have "is_binary32 (of_int 0)" by (rule is_binary32_of_int) simp
    with True me(4) show ?thesis by simp
  next
    case False
    then have "1 \<le> \<bar>m\<bar>" by simp
    then have "(1::rat) \<le> \<bar>of_int m\<bar>" by (metis of_int_1_le_iff of_int_abs)
    then have "1 * (2::rat) powi e \<le> \<bar>of_int m\<bar> * 2 powi e"
      by (intro mult_right_mono) simp_all
    then have "(2::rat) powi e \<le> \<bar>of_int m\<bar> * 2 powi e" by simp
    also have "\<dots> = \<bar>x\<bar>" by (simp add: me(4) abs_mult)
    also have "\<dots> \<le> 2 powi 4" using assms(2) by simp
    finally have "(2::rat) powi e \<le> 2 powi 4" .
    then have "e \<le> 4" by (rule power_int_le_imp_le_exp [rotated]) simp_all
    have "x * 2048 = of_int m * (2 powi e * 2 powi 11)" by (simp add: me(4))
    also have "\<dots> = of_int m * 2 powi (e + 11)" by (simp add: power_int_add)
    finally have "x * 2048 = of_int m * 2 powi (e + 11)" .
    with me(1,2) \<open>e \<le> 4\<close> show ?thesis
      unfolding is_binary32_def by (intro exI [of _ m] exI [of _ "e + 11"]) simp
  qed
qed

lemma trunc_toward_zero_close: "\<bar>of_int (trunc_toward_zero y) - y\<bar> < 1"
  unfolding trunc_toward_zero_def by (simp; linarith)

lemma trunc_toward_zero_mono:
  assumes "x \<le> y"
  shows "trunc_toward_zero x \<le> trunc_toward_zero y"
proof (cases "0 \<le> x")
  case True
  with assms show ?thesis by (simp add: trunc_toward_zero_def floor_mono)
next
  case False
  show ?thesis
  proof (cases "0 \<le> y")
    case True
    from False have "\<lceil>x\<rceil> \<le> 0" by (simp add: ceiling_le_zero)
    moreover from True have "0 \<le> \<lfloor>y\<rfloor>" by simp
    ultimately have "\<lceil>x\<rceil> \<le> \<lfloor>y\<rfloor>" by (rule order_trans)
    with False True show ?thesis by (simp add: trunc_toward_zero_def)
  next
    case ny: False
    with False assms show ?thesis by (simp add: trunc_toward_zero_def ceiling_mono)
  qed
qed

lemma trunc_toward_zero_of_int: "trunc_toward_zero (of_int k) = k"
  unfolding trunc_toward_zero_def by simp


lemma s16_of_float_in_range:
  assumes "- 32768 \<le> y" and "y \<le> 32767"
  shows "\<exists>q. s16_of_float y = Some q \<and> \<bar>of_int (sint q) - y\<bar> < 1"
proof -
  let ?v = "trunc_toward_zero y"
  from trunc_toward_zero_mono [OF assms(1)] have lo: "- 32768 \<le> ?v"
    using trunc_toward_zero_of_int [of "- 32768"] by simp
  from trunc_toward_zero_mono [OF assms(2)] have hi: "?v \<le> 32767"
    using trunc_toward_zero_of_int [of 32767] by simp
  from lo hi have "sint (word_of_int ?v :: s16) = ?v"
    by (simp add: sint_sbintrunc' signed_take_bit_int_eq_self)
  with lo hi trunc_toward_zero_close [of y] show ?thesis
    by (simp add: s16_of_float_def Let_def del: of_int_sint)
qed

text \<open>
  Claim C7. For every binary32 number \<open>f\<close> in the range of the fixed-point format (from
  -16 to 32767/2048), and every rounding that is exact on binary32 numbers,
  \<^verbatim>\<open>FLOAT_TO_FIXED\<close> is defined and \<^verbatim>\<open>FIXED_TO_FLOAT\<close> of its result differs from \<open>f\<close> by
  less than 1/2048. (The scaling by 2048 and back is exact in binary floating point; the
  cast alone loses the fraction.)
\<close>

theorem fixed_point_round_trip:
  assumes "exact_on_binary32 rnd" and "is_binary32 f"
    and "- 16 \<le> f" and "f \<le> 32767 / 2048"
  shows "\<exists>q. FLOAT_TO_FIXED rnd f = Some q \<and> \<bar>FIXED_TO_FLOAT rnd q - f\<bar> < 1 / 2048"
proof -
  from assms(1) have rnd: "is_binary32 x \<Longrightarrow> rnd x = x" for x
    by (simp add: exact_on_binary32_def)
  have scale: "rnd (of_int NN_SCALE) = 2048"
    using rnd [OF is_binary32_of_int [of 2048]] by (simp add: NN_SCALE_eq)
  from assms(3,4) have "\<bar>f\<bar> \<le> 16" by simp
  from rnd [OF is_binary32_times_2048 [OF assms(2) this]]
  have prod: "rnd (f * rnd (of_int NN_SCALE)) = f * 2048" by (simp add: scale)
  from assms(3,4) have "- 32768 \<le> f * 2048" "f * 2048 \<le> 32767" by simp_all
  from s16_of_float_in_range [OF this] obtain q where
    q: "s16_of_float (f * 2048) = Some q" "\<bar>of_int (sint q) - f * 2048\<bar> < 1" by blast
  have "\<bar>sint q\<bar> \<le> 2 ^ 15" using sint_ge [of q] sint_lt [of q] by simp
  then have small: "\<bar>sint q\<bar> < 2 ^ 24" by simp
  have rt: "FIXED_TO_FLOAT rnd q = of_int (sint q) / 2048"
    using rnd [OF is_binary32_of_int [OF small]] rnd [OF is_binary32_of_int_div_2048 [OF small]]
    by (simp add: FIXED_TO_FLOAT_def scale del: of_int_sint)
  have "of_int (sint q) / 2048 - f = (of_int (sint q) - f * 2048) / 2048"
    by (simp add: diff_divide_distrib)
  then have "\<bar>of_int (sint q) / 2048 - f\<bar> = \<bar>of_int (sint q) - f * 2048\<bar> / 2048"
    by (simp only: abs_divide)
  also have "\<dots> < 1 / 2048"
    using q(2) by (simp only: divide_strict_right_mono zero_less_numeral)
  finally have "\<bar>FIXED_TO_FLOAT rnd q - f\<bar> < 1 / 2048" by (simp only: rt)
  with q(1) show ?thesis by (simp add: FLOAT_TO_FIXED_def prod)
qed

text \<open>
  The constant \<^verbatim>\<open>0.9f\<close> of the demo, 15099494 / 16777216 as a binary32 number: it
  becomes the sample 1843, that is 0.89990234375.
\<close>

theorem fixed_point_round_trip_witness:
  "FLOAT_TO_FIXED (\<lambda>x. x) (15099494 / 16777216) = Some 1843 \<and>
   \<bar>FIXED_TO_FLOAT (\<lambda>x. x) 1843 - 15099494 / 16777216\<bar> < 1 / 2048"
proof -
  have e: "exact_on_binary32 (\<lambda>x. x)" by (simp add: exact_on_binary32_def)
  have p: "(2::rat) powi (- 24) = 1 / 16777216" by simp
  have b: "is_binary32 (15099494 / 16777216)"
    unfolding is_binary32_def
    by (intro exI [of _ 15099494] exI [of _ "- 24"]) (simp only: p, simp)
  have lo: "- 16 \<le> (15099494 / 16777216 :: rat)" by simp
  have hi: "(15099494 / 16777216 :: rat) \<le> 32767 / 2048" by simp
  have v: "FLOAT_TO_FIXED (\<lambda>x. x) (15099494 / 16777216) = Some 1843"
    by code_simp
  from fixed_point_round_trip [OF e b lo hi] v show ?thesis by simp
qed

section \<open>Confidence\<close>

subsection \<open>Rounding to binary32\<close>

lemma binary32_exponent_lower: "e \<le> binary32_exponent n e x"
proof (induction n arbitrary: e)
  case 0
  show ?case by simp
next
  case (Suc n)
  from Suc [of "e + 1"] show ?case by simp
qed

lemma binary32_exponent_upper:
  "e \<le> e0 \<Longrightarrow> e0 \<le> e + int n \<Longrightarrow> \<bar>x\<bar> < 2 powi (e0 + 24) \<Longrightarrow>
   binary32_exponent n e x \<le> e0"
proof (induction n arbitrary: e)
  case 0
  then show ?case by simp
next
  case (Suc n)
  show ?case
  proof (cases "\<bar>x\<bar> < 2 powi (e + 24)")
    case True
    with Suc.prems show ?thesis by simp
  next
    case False
    with Suc.prems(3) have "e0 \<noteq> e" by auto
    with Suc.prems(1) have "e + 1 \<le> e0" by simp
    moreover from Suc.prems(2) have "e0 \<le> e + 1 + int n" by simp
    ultimately have "binary32_exponent n (e + 1) x \<le> e0"
      using Suc.prems(3) by (rule Suc.IH)
    with False show ?thesis by simp
  qed
qed

lemma round_half_even_of_int: "round_half_even (of_int k) = k"
  by (simp add: round_half_even_def)

lemma rnd_binary32_exact: "exact_on_binary32 rnd_binary32"
  unfolding exact_on_binary32_def
proof (intro allI impI)
  fix x assume "is_binary32 x"
  then obtain m e0 :: int where
    me: "\<bar>m\<bar> < 2 ^ 24" "- 149 \<le> e0" "e0 \<le> 104" "x = of_int m * 2 powi e0"
    unfolding is_binary32_def by blast
  define r where "r = binary32_exponent 253 (- 149) x"
  have "\<bar>x\<bar> = of_int \<bar>m\<bar> * 2 powi e0" by (simp add: me(4) abs_mult)
  also have "\<dots> < 2 ^ 24 * 2 powi e0"
  proof (rule mult_strict_right_mono)
    from me(1) have "(of_int \<bar>m\<bar> :: rat) < of_int (2 ^ 24)" by (simp only: of_int_less_iff)
    then show "(of_int \<bar>m\<bar> :: rat) < 2 ^ 24" by simp
    show "(0::rat) < 2 powi e0" by simp
  qed
  also have "\<dots> = 2 powi (e0 + 24)" by (simp add: power_int_add)
  finally have lt: "\<bar>x\<bar> < 2 powi (e0 + 24)" .
  from me(2,3) have up: "r \<le> e0"
    unfolding r_def by (intro binary32_exponent_upper lt) simp_all
  define d where "d = nat (e0 - r)"
  with up have e0: "e0 = r + int d" by simp
  have pw: "(2::rat) powi e0 = 2 powi r * 2 ^ d"
    by (simp add: e0 power_int_add)
  have x: "x = of_int (m * 2 ^ d) * 2 powi r"
    by (simp add: me(4) pw)
  then have "x / 2 powi r = of_int (m * 2 ^ d)" by simp
  then have "rnd_binary32 x = of_int (m * 2 ^ d) * 2 powi r"
    by (simp only: rnd_binary32_def Let_def r_def [symmetric] round_half_even_of_int)
  with x show "rnd_binary32 x = x" by simp
qed

lemma binary32_exponent_fuel:
  "binary32_exponent n e x = e + int n \<or> \<bar>x\<bar> < 2 powi (binary32_exponent n e x + 24)"
proof (induction n arbitrary: e)
  case 0
  show ?case by simp
next
  case (Suc n)
  from Suc [of "e + 1"] show ?case by auto
qed

lemma binary32_exponent_eq:
  assumes "e \<le> e0" and "e0 \<le> e + int n"
    and "\<bar>x\<bar> < 2 powi (e0 + 24)" and "2 powi (e0 + 23) \<le> \<bar>x\<bar>"
  shows "binary32_exponent n e x = e0"
proof -
  let ?r = "binary32_exponent n e x"
  have up: "?r \<le> e0" using assms(1-3) by (rule binary32_exponent_upper)
  have "e0 \<le> ?r"
  proof (rule ccontr)
    assume "\<not> e0 \<le> ?r"
    then have lt: "?r < e0" by simp
    with assms(2) have "?r \<noteq> e + int n" by simp
    with binary32_exponent_fuel [of n e x] have "\<bar>x\<bar> < 2 powi (?r + 24)" by simp
    also from lt have "(2::rat) powi (?r + 24) \<le> 2 powi (e0 + 23)"
      by (intro power_int_increasing) simp_all
    finally show False using assms(4) by simp
  qed
  with up show ?thesis by simp
qed

lemma rnd_binary32_tie: "rnd_binary32 (16809471 / 2048) = 16809472 / 2048"
proof -
  have p24: "(2::rat) powi (- 10 + 24) = 16384" and p23: "(2::rat) powi (- 10 + 23) = 8192"
    by simp_all
  have e: "binary32_exponent 253 (- 149) (16809471 / 2048) = - 10"
  proof (rule binary32_exponent_eq)
    show "- 149 \<le> (- 10 :: int)" and "(- 10 :: int) \<le> - 149 + int 253" by simp_all
    show "\<bar>16809471 / 2048 :: rat\<bar> < 2 powi (- 10 + 24)" by (simp only: p24)
    show "(2::rat) powi (- 10 + 23) \<le> \<bar>16809471 / 2048\<bar>" by (simp only: p23)
  qed
  have p: "(2::rat) powi (- 10) = 1 / 1024" by simp
  have q: "(16809471 / 2048 :: rat) / (1 / 1024) = 16809471 / 2" by simp
  have f: "\<lfloor>16809471 / 2 :: rat\<rfloor> = 8404735" by code_simp
  have "round_half_even (16809471 / 2) = 8404736"
    by (simp add: round_half_even_def f Let_def)
  then show ?thesis
    by (simp add: rnd_binary32_def e p q Let_def)
qed

lemma rnd_binary32_demo: "rnd_binary32 (1843 / 3679) = 8404569 / 16777216"
proof -
  have p24: "(2::rat) powi (- 24 + 24) = 1" and p23: "(2::rat) powi (- 24 + 23) = 1 / 2"
    by simp_all
  have e: "binary32_exponent 253 (- 149) (1843 / 3679) = - 24"
  proof (rule binary32_exponent_eq)
    show "- 149 \<le> (- 24 :: int)" and "(- 24 :: int) \<le> - 149 + int 253" by simp_all
    show "\<bar>1843 / 3679 :: rat\<bar> < 2 powi (- 24 + 24)" by (simp only: p24, simp?)
    show "(2::rat) powi (- 24 + 23) \<le> \<bar>1843 / 3679\<bar>" by (simp only: p23, simp?)
  qed
  have p: "(2::rat) powi (- 24) = 1 / 16777216" by simp
  have q: "(1843 / 3679 :: rat) / (1 / 16777216) = 30920409088 / 3679" by simp
  have r: "round_half_even (30920409088 / 3679) = 8404569" by code_simp
  show ?thesis
    by (simp only: rnd_binary32_def e p q r Let_def, simp?)
qed

subsection \<open>The running sum\<close>

lemma is_binary32_units:
  assumes "\<bar>m\<bar> \<le> 2 ^ 24"
  shows "is_binary32 (of_int m / 2048)"
proof (cases "\<bar>m\<bar> < 2 ^ 24")
  case True
  then show ?thesis by (rule is_binary32_of_int_div_2048)
next
  case False
  with assms have "m = 2 ^ 24 \<or> m = - (2 ^ 24)" by auto
  then have "(of_int m / 2048 :: rat) = of_int 8192 \<or> (of_int m / 2048 :: rat) = of_int (- 8192)"
    by auto
  moreover have "is_binary32 (of_int 8192)" "is_binary32 (of_int (- 8192))"
    by (rule is_binary32_of_int, simp)+
  ultimately show ?thesis by auto
qed

lemma FIXED_TO_FLOAT_exact:
  assumes "exact_on_binary32 rnd"
  shows "FIXED_TO_FLOAT rnd q = of_int (sint q) / 2048"
proof -
  from assms have rnd: "is_binary32 x \<Longrightarrow> rnd x = x" for x
    by (simp add: exact_on_binary32_def)
  have scale: "rnd (of_int NN_SCALE) = 2048"
    using rnd [OF is_binary32_of_int [of 2048]] by (simp add: NN_SCALE_eq)
  have "\<bar>sint q\<bar> \<le> 2 ^ 15" using sint_ge [of q] sint_lt [of q] by simp
  then have small: "\<bar>sint q\<bar> < 2 ^ 24" by simp
  show ?thesis
    using rnd [OF is_binary32_of_int [OF small]] rnd [OF is_binary32_of_int_div_2048 [OF small]]
    by (simp add: FIXED_TO_FLOAT_def scale del: of_int_sint)
qed

lemma running_step_exact:
  assumes "exact_on_binary32 rnd" and "\<bar>a + sint x\<bar> \<le> 2 ^ 24"
  shows "rnd (of_int a / 2048 + FIXED_TO_FLOAT rnd x) = of_int (a + sint x) / 2048"
proof -
  from assms(1) have rnd: "is_binary32 y \<Longrightarrow> rnd y = y" for y
    by (simp add: exact_on_binary32_def)
  have "of_int a / 2048 + FIXED_TO_FLOAT rnd x = (of_int (a + sint x) / 2048 :: rat)"
    by (simp add: FIXED_TO_FLOAT_exact [OF assms(1)] add_divide_distrib del: of_int_sint)
  with rnd [OF is_binary32_units [OF assms(2)]] show ?thesis by (simp only:)
qed

lemma sint_s16_bound: "\<bar>sint (x::s16)\<bar> \<le> 32768"
  using sint_ge [of x] sint_lt [of x] by simp

lemma running_sum_Cons:
  "running_sum rnd s (x # xs) = running_sum rnd (rnd (s + FIXED_TO_FLOAT rnd x)) xs"
  by (simp add: running_sum_def)

lemma running_sum_exact:
  assumes "exact_on_binary32 rnd"
  shows "\<bar>a\<bar> + 32768 * int (length xs) \<le> 2 ^ 24 \<Longrightarrow>
         running_sum rnd (of_int a / 2048) xs = of_int (a + sum_list (map sint xs)) / 2048"
proof (induction xs arbitrary: a)
  case Nil
  show ?case by (simp add: running_sum_def)
next
  case (Cons x xs)
  from Cons.prems sint_s16_bound [of x] have b: "\<bar>a + sint x\<bar> \<le> 2 ^ 24" by simp
  from Cons.prems sint_s16_bound [of x]
  have "\<bar>a + sint x\<bar> + 32768 * int (length xs) \<le> 2 ^ 24" by simp
  from Cons.IH [OF this]
  have "running_sum rnd (of_int (a + sint x) / 2048) xs =
      of_int (a + sint x + sum_list (map sint xs)) / 2048" .
  moreover have "a + sint x + sum_list (map sint xs) = a + sum_list (map sint (x # xs))"
    by simp
  ultimately show ?case
    by (simp only: running_sum_Cons running_step_exact [OF assms b])
qed

lemma running_sum_replicate_down:
  assumes "exact_on_binary32 rnd"
  shows "sint x \<le> 0 \<Longrightarrow> 0 \<le> a + int n * sint x \<Longrightarrow> a \<le> 2 ^ 24 \<Longrightarrow>
         running_sum rnd (of_int a / 2048) (replicate n x) = of_int (a + int n * sint x) / 2048"
proof (induction n arbitrary: a)
  case 0
  show ?case by (simp add: running_sum_def)
next
  case (Suc n)
  have "int n * sint x \<le> 0" using Suc.prems(1) by (simp add: mult_nonneg_nonpos)
  with Suc.prems have lo: "0 \<le> a + sint x" by (simp add: algebra_simps)
  from Suc.prems have hi: "a + sint x \<le> 2 ^ 24" by simp
  from lo hi have b: "\<bar>a + sint x\<bar> \<le> 2 ^ 24" by simp
  from Suc.prems have "0 \<le> (a + sint x) + int n * sint x" by (simp add: algebra_simps)
  from Suc.IH [OF Suc.prems(1) this hi]
  have "running_sum rnd (of_int (a + sint x) / 2048) (replicate n x) =
      of_int (a + sint x + int n * sint x) / 2048" .
  moreover have "a + sint x + int n * sint x = a + int (Suc n) * sint x"
    by (simp add: algebra_simps)
  ultimately show ?case
    by (simp only: replicate_Suc running_sum_Cons running_step_exact [OF assms b])
qed

lemma running_sum_append:
  "running_sum rnd s (xs @ ys) = running_sum rnd (running_sum rnd s xs) ys"
  by (simp add: running_sum_def)

lemma NN_GetConfidence_loop_running_sum:
  "unat num_out \<le> length outputs \<Longrightarrow> i \<le> num_out \<Longrightarrow>
   NN_GetConfidence_loop rnd outputs num_out i s =
     Some (running_sum rnd s (drop (unat i) (take (unat num_out) outputs)))"
proof (induction rnd outputs num_out i s rule: NN_GetConfidence_loop.induct)
  case (1 rnd outputs num_out i s)
  show ?case
  proof (cases "i < num_out")
    case False
    with "1.prems" have "i = num_out" by simp
    then show ?thesis by (simp add: running_sum_def)
  next
    case True
    then have suc: "unat (i + 1) = Suc (unat i)" by (rule u16_succ)
    from True have le: "i + 1 \<le> num_out" by (simp add: inc_le)
    from True have lt: "unat i < unat num_out" by (simp add: word_less_nat_alt)
    with "1.prems" have inb: "unat i < length outputs" by simp
    from lt inb have "drop (unat i) (take (unat num_out) outputs) =
        outputs ! unat i # drop (Suc (unat i)) (take (unat num_out) outputs)"
      by (simp add: Cons_nth_drop_Suc [symmetric])
    with "1.IH" [OF True inb "1.prems"(1) le] True inb show ?thesis
      by (simp add: suc running_sum_def)
  qed
qed

lemma exact_rnd_0: "exact_on_binary32 rnd \<Longrightarrow> rnd 0 = 0"
  using is_binary32_of_int [of 0] by (simp add: exact_on_binary32_def)

lemma running_sum_zeros:
  assumes "exact_on_binary32 rnd"
  shows "\<forall>x\<in>set xs. x = 0 \<Longrightarrow> running_sum rnd 0 xs = 0"
proof (induction xs)
  case Nil
  show ?case by (simp add: running_sum_def)
next
  case (Cons x xs)
  then have "x = 0" by simp
  then have "rnd (0 + FIXED_TO_FLOAT rnd x) = 0"
    by (simp add: FIXED_TO_FLOAT_exact [OF assms] exact_rnd_0 [OF assms])
  with Cons show ?case by (simp add: running_sum_Cons)
qed

lemma running_sum_exact_512:
  assumes "exact_on_binary32 rnd" and "length xs \<le> 512"
  shows "running_sum rnd 0 xs = of_int (sum_list (map sint xs)) / 2048"
proof -
  from assms(2) have "\<bar>0::int\<bar> + 32768 * int (length xs) \<le> 2 ^ 24" by simp
  from running_sum_exact [OF assms(1) this] show ?thesis by simp
qed

text \<open>
  Claim C4, with its last part limited to what the code does. For an array that holds the
  \<^verbatim>\<open>num_outputs\<close> samples, at least one, and an index among them, and for every
  rounding: \<^verbatim>\<open>NN_GetConfidence\<close> returns the rounded quotient of the selected sample's
  float value by the running sum when the running sum is positive, and the selected
  sample's float value unchanged otherwise. For a rounding that is exact on binary32
  numbers: a vector of zeros gives 0; for at most 512 samples the running sum is the
  exact sum of the samples divided by 2048 and the float value of a sample is the sample
  divided by 2048, so that at most 512 samples that sum to exactly 0 give the selected
  sample's value unchanged.
\<close>

theorem NN_GetConfidence_running_sum:
  assumes "1 \<le> unat num_out" and "unat num_out \<le> length outputs"
    and "0 \<le> class_idx" and "class_idx < int (unat num_out)"
  shows "NN_GetConfidence rnd outputs num_out class_idx =
           Some (if 0 < running_sum rnd 0 (take (unat num_out) outputs)
                 then rnd (FIXED_TO_FLOAT rnd (outputs ! nat class_idx) /
                           running_sum rnd 0 (take (unat num_out) outputs))
                 else FIXED_TO_FLOAT rnd (outputs ! nat class_idx)) \<and>
         (exact_on_binary32 rnd \<and> (\<forall>x\<in>set (take (unat num_out) outputs). x = 0) \<longrightarrow>
            NN_GetConfidence rnd outputs num_out class_idx = Some 0) \<and>
         (exact_on_binary32 rnd \<and> unat num_out \<le> 512 \<longrightarrow>
            running_sum rnd 0 (take (unat num_out) outputs) =
              of_int (sum_list (map sint (take (unat num_out) outputs))) / 2048 \<and>
            FIXED_TO_FLOAT rnd (outputs ! nat class_idx) =
              of_int (sint (outputs ! nat class_idx)) / 2048) \<and>
         (exact_on_binary32 rnd \<and> unat num_out \<le> 512 \<and>
          sum_list (map sint (take (unat num_out) outputs)) = 0 \<longrightarrow>
            NN_GetConfidence rnd outputs num_out class_idx =
              Some (of_int (sint (outputs ! nat class_idx)) / 2048))"
proof -
  let ?xs = "take (unat num_out) outputs"
  let ?v = "FIXED_TO_FLOAT rnd (outputs ! nat class_idx)"
  from assms(3,4) have lt: "nat class_idx < unat num_out" by (simp only: nat_less_iff)
  with assms(2) have idx: "nat class_idx < length outputs" by simp
  have "NN_GetConfidence_loop rnd outputs num_out 0 0 = Some (running_sum rnd 0 ?xs)"
    using NN_GetConfidence_loop_running_sum [OF assms(2), of 0 rnd 0] by simp
  with assms(3) idx have main: "NN_GetConfidence rnd outputs num_out class_idx =
      Some (if 0 < running_sum rnd 0 ?xs then rnd (?v / running_sum rnd 0 ?xs) else ?v)"
    by (simp add: NN_GetConfidence_def Let_def)
  have zeros: "NN_GetConfidence rnd outputs num_out class_idx = Some 0"
    if ex: "exact_on_binary32 rnd" and z: "\<forall>x\<in>set ?xs. x = 0"
  proof -
    from lt assms(2) have "nat class_idx < length ?xs" by simp
    then have "?xs ! nat class_idx \<in> set ?xs" by (rule nth_mem)
    moreover from lt have "?xs ! nat class_idx = outputs ! nat class_idx" by simp
    ultimately have "outputs ! nat class_idx = 0" using z by auto
    then have "?v = 0" by (simp add: FIXED_TO_FLOAT_exact [OF ex])
    with main running_sum_zeros [OF ex z] show ?thesis by simp
  qed
  have small: "running_sum rnd 0 ?xs = of_int (sum_list (map sint ?xs)) / 2048"
    if ex: "exact_on_binary32 rnd" and n: "unat num_out \<le> 512"
    using running_sum_exact_512 [OF ex, of ?xs] n by simp
  have raw: "NN_GetConfidence rnd outputs num_out class_idx =
      Some (of_int (sint (outputs ! nat class_idx)) / 2048)"
    if ex: "exact_on_binary32 rnd" and n: "unat num_out \<le> 512"
      and s: "sum_list (map sint ?xs) = 0"
    using main small [OF ex n] s by (simp add: FIXED_TO_FLOAT_exact [OF ex] del: of_int_sint)
  show ?thesis
  proof (intro conjI impI)
    show "NN_GetConfidence rnd outputs num_out class_idx =
      Some (if 0 < running_sum rnd 0 ?xs then rnd (?v / running_sum rnd 0 ?xs) else ?v)"
      by (rule main)
  next
    assume "exact_on_binary32 rnd \<and> (\<forall>x\<in>set ?xs. x = 0)"
    then show "NN_GetConfidence rnd outputs num_out class_idx = Some 0"
      using zeros by blast
  next
    assume "exact_on_binary32 rnd \<and> unat num_out \<le> 512"
    then show "running_sum rnd 0 ?xs = of_int (sum_list (map sint ?xs)) / 2048"
      using small by blast
  next
    assume "exact_on_binary32 rnd \<and> unat num_out \<le> 512"
    then show "?v = of_int (sint (outputs ! nat class_idx)) / 2048"
      using FIXED_TO_FLOAT_exact by blast
  next
    assume "exact_on_binary32 rnd \<and> unat num_out \<le> 512 \<and> sum_list (map sint ?xs) = 0"
    then show "NN_GetConfidence rnd outputs num_out class_idx =
        Some (of_int (sint (outputs ! nat class_idx)) / 2048)"
      using raw by blast
  qed
qed

text \<open>
  The demo's vector for the digit 3 (0.9 at index 3, 0.1 elsewhere, as samples 1843 and
  204): the confidence is the binary32 number nearest to 1843/3679, about 0.50095. And
  the vector of ten zeros.
\<close>

theorem NN_GetConfidence_running_sum_witness:
  "NN_GetConfidence rnd_binary32 [204, 204, 204, 1843, 204, 204, 204, 204, 204, 204] 10 3 =
     Some (8404569 / 16777216) \<and>
   NN_GetConfidence rnd_binary32 [0, 0, 0, 0, 0, 0, 0, 0, 0, 0] 10 3 = Some 0"
proof -
  note ex = rnd_binary32_exact
  let ?d = "[204, 204, 204, 1843, 204, 204, 204, 204, 204, 204 :: s16]"
  let ?z = "[0, 0, 0, 0, 0, 0, 0, 0, 0, 0 :: s16]"
  have h1: "1 \<le> unat (10::u16)" and h3: "(0::int) \<le> 3" and h4: "(3::int) < int (unat (10::u16))"
    by simp_all
  have d2: "unat (10::u16) \<le> length ?d" and z2: "unat (10::u16) \<le> length ?z" by simp_all
  have n: "unat (10::u16) \<le> 512" by simp
  note d = NN_GetConfidence_running_sum [OF h1 d2 h3 h4, of rnd_binary32]
  note z = NN_GetConfidence_running_sum [OF h1 z2 h3 h4, of rnd_binary32]
  from d [THEN conjunct2, THEN conjunct2, THEN conjunct1] ex n
  have "running_sum rnd_binary32 0 (take (unat (10::u16)) ?d) =
          of_int (sum_list (map sint (take (unat (10::u16)) ?d))) / 2048"
    and "FIXED_TO_FLOAT rnd_binary32 (?d ! nat 3) = of_int (sint (?d ! nat 3)) / 2048"
    by blast+
  then have rs: "running_sum rnd_binary32 0 (take (unat (10::u16)) ?d) = 3679 / 2048"
    and fv: "FIXED_TO_FLOAT rnd_binary32 (?d ! nat 3) = 1843 / 2048"
    by simp_all
  have "NN_GetConfidence rnd_binary32 ?d 10 3 = Some (rnd_binary32 (1843 / 3679))"
    by (simp only: d [THEN conjunct1] rs fv, simp?)
  moreover have "\<forall>x\<in>set (take (unat (10::u16)) ?z). x = 0" by simp
  with z [THEN conjunct2, THEN conjunct1] ex
  have "NN_GetConfidence rnd_binary32 ?z 10 3 = Some 0" by blast
  ultimately show ?thesis by (simp only: rnd_binary32_demo simp_thms)
qed

subsection \<open>A vector with sum 0 and a positive running sum\<close>

lemma rounding_vector_length: "length rounding_vector = 1026"
  by (simp add: rounding_vector_def)

lemma rounding_vector_sum: "sum_list (map sint rounding_vector) = 0"
  by (simp add: rounding_vector_def sum_list_replicate del: of_int_sint)

lemma rounding_vector_running_sum:
  "running_sum rnd_binary32 0 rounding_vector = 1 / 2048"
proof -
  note ex = rnd_binary32_exact
  have s1: "running_sum rnd_binary32 0 (replicate 512 32767) = of_int 16776704 / 2048"
    using running_sum_exact [OF ex, of 0 "replicate 512 32767"]
    by (simp add: sum_list_replicate)
  have s2: "rnd_binary32 (of_int 16776704 / 2048 + FIXED_TO_FLOAT rnd_binary32 32767) =
      of_int 16809472 / 2048"
    using rnd_binary32_tie by (simp add: FIXED_TO_FLOAT_exact [OF ex])
  have s3: "rnd_binary32 (of_int 16809472 / 2048 + FIXED_TO_FLOAT rnd_binary32 (- 32768)) =
      of_int 16776704 / 2048"
    using running_step_exact [OF ex, of 16809472 "- 32768"] by simp
  have s4: "running_sum rnd_binary32 (of_int 16776704 / 2048) (replicate 511 (- 32768)) =
      of_int 32256 / 2048"
    using running_sum_replicate_down [OF ex, of "- 32768" 16776704 511] by simp
  have s5: "rnd_binary32 (of_int 32256 / 2048 + FIXED_TO_FLOAT rnd_binary32 (- 32255)) =
      of_int 1 / 2048"
    using running_step_exact [OF ex, of 32256 "- 32255"] by simp
  have nil: "running_sum rnd_binary32 s [] = s" for s
    by (simp add: running_sum_def)
  have "running_sum rnd_binary32 0 rounding_vector = of_int 1 / 2048"
    unfolding rounding_vector_def
    by (simp only: running_sum_append running_sum_Cons nil s1 s2 s3 s4 s5)
  then show ?thesis by simp
qed

lemma rounding_vector_loop: "NN_GetConfidence_loop rnd_binary32 rounding_vector 1026 0 0 =
      Some (running_sum rnd_binary32 0 rounding_vector)"
    using NN_GetConfidence_loop_running_sum [of 1026 rounding_vector 0 rnd_binary32 0]
    by (simp add: rounding_vector_length del: NN_GetConfidence_loop.simps)

lemma rounding_vector_first: "rounding_vector ! 0 = 32767"
  by (simp add: rounding_vector_def nth_append)

text \<open>
  Claim C4 as first stated, for every vector whose samples sum to exactly 0, fails at
  this vector: the running sum in binary32 is 1/2048, the quotient is taken, and the
  value returned for index 0 is 32767 where the selected sample's value is 32767/2048.
\<close>

theorem NN_GetConfidence_exact_sum_counterexample:
  "length rounding_vector = 1026 \<and> sum_list (map sint rounding_vector) = 0 \<and>
   NN_GetConfidence rnd_binary32 rounding_vector 1026 0 = Some 32767 \<and>
   FIXED_TO_FLOAT rnd_binary32 (rounding_vector ! 0) = 32767 / 2048 \<and>
   NN_GetConfidence rnd_binary32 rounding_vector 1026 0 \<noteq>
     Some (FIXED_TO_FLOAT rnd_binary32 (rounding_vector ! 0))"
proof -
  note ex = rnd_binary32_exact
  have v: "FIXED_TO_FLOAT rnd_binary32 (rounding_vector ! 0) = 32767 / 2048"
    by (simp add: rounding_vector_first FIXED_TO_FLOAT_exact [OF ex])
  have l: "NN_GetConfidence_loop rnd_binary32 rounding_vector 1026 0 0 = Some (1 / 2048)"
    by (simp only: rounding_vector_loop rounding_vector_running_sum)
  have "rnd_binary32 (of_int 32767) = of_int 32767"
    using ex is_binary32_of_int [of 32767] by (simp add: exact_on_binary32_def)
  then have q: "rnd_binary32 32767 = 32767" by simp
  have r: "NN_GetConfidence rnd_binary32 rounding_vector 1026 0 = Some 32767"
    by (simp add: NN_GetConfidence_def rounding_vector_length l v q Let_def
        del: NN_GetConfidence_loop.simps)
  have "(32767 :: rat) \<noteq> 32767 / 2048" by simp
  then have "Some (32767 :: rat) \<noteq> Some (32767 / 2048)" by simp
  with r v show ?thesis
    by (simp only: rounding_vector_length rounding_vector_sum simp_thms)
qed

end
